theory Spec2Isabelle
  imports Main "HOL-Library.Sublist" "HOL-Library.AList" "HOL-Library.Char_ord" "HOL-Library.List_Lexorder"
begin

section \<open>Strings and the exclusion matcher (core/fileSystem.ts)\<close>

text \<open>
  JavaScript strings are modelled as \<^typ>\<open>string\<close>. \<open>String.prototype.replace\<close> with a
  global regular expression that is a plain literal (\<open>/\\/g\<close>, \<open>/\*\*/g\<close>, \<open>/\*/g\<close>,
  \<open>/{{DOUBLE_STAR}}/g\<close>, \<open>/\./g\<close>, \<open>/:/g\<close>) replaces every non-overlapping occurrence of
  that literal, scanning from the left.
\<close>

abbreviation backslash :: char where
  "backslash \<equiv> CHR 0x5C"

function replaceAll :: "string \<Rightarrow> string \<Rightarrow> string \<Rightarrow> string" where
  "replaceAll needle repl [] = []"
| "replaceAll needle repl (c # cs) =
     (if needle \<noteq> [] \<and> prefix needle (c # cs)
      then repl @ replaceAll needle repl (drop (length needle) (c # cs))
      else c # replaceAll needle repl cs)"
  by pat_completeness auto
termination
  by (relation "measure (\<lambda>(needle, repl, s). length s)") (auto simp: neq_Nil_conv)

text \<open>\<open>String.prototype.includes\<close>: the argument occurs as a contiguous substring.\<close>

fun includesStr :: "string \<Rightarrow> string \<Rightarrow> bool" where
  "includesStr [] t = (t = [])"
| "includesStr (c # s) t = (prefix t (c # s) \<or> includesStr s t)"

text \<open>
  The regular expressions that \<open>matchesPattern\<close> builds are modelled for the fragment the
  translation produces from patterns without further metacharacters: literal characters, the
  escaped dot \<open>\.\<close>, the class \<open>[^/]\<close>, each optionally followed by \<open>*\<close>. A source text
  outside this fragment (an unescaped metacharacter, which JavaScript either rejects with a
  SyntaxError or gives a meaning not modelled here) is reported as \<open>RegExpOutsideFragment\<close>.
\<close>

datatype atom = Lit char | NotSlash

datatype item = One atom | Star atom

definition metachar :: "char \<Rightarrow> bool" where
  "metachar c = (c = backslash \<or> c \<in> set ''^$.*+?()[]{}|'')"

definition parseAtom :: "string \<Rightarrow> (atom \<times> string) option" where
  "parseAtom s =
     (if prefix [backslash, CHR ''.''] s then Some (Lit CHR ''.'', drop 2 s)
      else if prefix ''[^/]'' s then Some (NotSlash, drop 4 s)
      else (case s of
              [] \<Rightarrow> None
            | c # r \<Rightarrow> if metachar c then None else Some (Lit c, r)))"

lemma parseAtom_shorter: "parseAtom s = Some (a, r) \<Longrightarrow> length r < length s"
  by (auto simp: parseAtom_def prefix_def split: if_splits list.splits)

function parseItems :: "string \<Rightarrow> item list option" where
  "parseItems s =
     (if s = [] then Some []
      else (case parseAtom s of
              None \<Rightarrow> None
            | Some (a, r) \<Rightarrow>
                (if r \<noteq> [] \<and> hd r = CHR ''*''
                 then map_option (Cons (Star a)) (parseItems (tl r))
                 else map_option (Cons (One a)) (parseItems r))))"
  by pat_completeness auto
termination
proof (relation "measure length")
  show "wf (measure length)" by simp
next
  fix s :: string and x2 a r
  assume "s \<noteq> []" "parseAtom s = Some x2" "(a, r) = x2" "r \<noteq> [] \<and> hd r = CHR ''*''"
  then have "length r < length s" by (auto dest: parseAtom_shorter)
  moreover have "length (tl r) \<le> length r" by simp
  ultimately show "(tl r, s) \<in> measure length" by simp
next
  fix s :: string and x2 a r
  assume "s \<noteq> []" "parseAtom s = Some x2" "(a, r) = x2"
  then show "(r, s) \<in> measure length" by (auto dest: parseAtom_shorter)
qed

declare parseItems.simps [simp del]

text \<open>\<open>new RegExp(`^${regexPattern}$`)\<close>: both anchors are always present.\<close>

definition newRegExp :: "string \<Rightarrow> item list option" where
  "newRegExp src =
     (case src of
        [] \<Rightarrow> None
      | c # r \<Rightarrow>
          if c = CHR ''^'' \<and> r \<noteq> [] \<and> last r = CHR ''$'' then parseItems (butlast r) else None)"

fun atomMatches :: "atom \<Rightarrow> char \<Rightarrow> bool" where
  "atomMatches (Lit c) d = (c = d)"
| "atomMatches NotSlash d = (d \<noteq> CHR ''/'')"

text \<open>\<open>RegExp.prototype.test\<close> for an anchored expression: the whole string must match.\<close>

fun regexTest :: "item list \<Rightarrow> string \<Rightarrow> bool" where
  "regexTest [] s = (s = [])"
| "regexTest (One a # r) [] = False"
| "regexTest (One a # r) (c # cs) = (atomMatches a c \<and> regexTest r cs)"
| "regexTest (Star a # r) [] = regexTest r []"
| "regexTest (Star a # r) (c # cs) =
     ((atomMatches a c \<and> regexTest (Star a # r) cs) \<or> regexTest r (c # cs))"

datatype error =
    ENOENT | ENOTDIR | EEXIST | EISDIR | ENAMETOOLONG | ENOTSUP
  | RegExpOutsideFragment string
  | FailedToCreateDirectory "string list" error
  | FailedToListBackups error
  | RemoteNotImplemented
  | DestinationExists "string list"
  | BackupNotFound string string

definition regexPattern :: "string \<Rightarrow> string" where
  "regexPattern pattern =
     replaceAll ''.'' [backslash, CHR ''.'']
       (replaceAll ''{{DOUBLE_STAR}}'' ''.*''
         (replaceAll ''*'' ''[^/]*''
           (replaceAll ''**'' ''{{DOUBLE_STAR}}'' pattern)))"

definition matchesPattern :: "string \<Rightarrow> string \<Rightarrow> error + bool" where
  "matchesPattern path pattern =
     (case newRegExp (''^'' @ regexPattern pattern @ ''$'') of
        None \<Rightarrow> Inl (RegExpOutsideFragment pattern)
      | Some regex \<Rightarrow> Inr (regexTest regex path \<or> includesStr path pattern))"

fun shouldExcludeLoop :: "string \<Rightarrow> string list \<Rightarrow> error + bool" where
  "shouldExcludeLoop normalizedPath [] = Inr False"
| "shouldExcludeLoop normalizedPath (pattern # rest) =
     (case matchesPattern normalizedPath (replaceAll [backslash] ''/'' pattern) of
        Inl e \<Rightarrow> Inl e
      | Inr True \<Rightarrow> Inr True
      | Inr False \<Rightarrow> shouldExcludeLoop normalizedPath rest)"

definition shouldExclude :: "string \<Rightarrow> string list \<Rightarrow> error + bool" where
  "shouldExclude relativePath excludePatterns =
     shouldExcludeLoop (replaceAll [backslash] ''/'' relativePath) excludePatterns"

section \<open>The file system (the part of Node's \<open>fs/promises\<close> the engine calls)\<close>

text \<open>
  A file system is a tree. A directory lists its entries in the order \<open>readdir\<close> reports
  them; a regular file carries its content; \<open>Special\<close> stands for an entry that is neither
  (a symbolic link, a FIFO, a socket, a device), for which \<open>Dirent.isFile()\<close> and
  \<open>Dirent.isDirectory()\<close> both answer false. Paths are absolute and given by their
  components; resolution through symbolic links is not modelled. A path whose text reaches
  \<open>PATH_MAX\<close> bytes is refused with \<open>ENAMETOOLONG\<close>, as the operating system does.
\<close>

type_synonym path = "string list"

datatype node = File string | Dir "(string \<times> node) list" | Special

datatype kind = KFile | KDirectory | KOther

datatype dirent = Dirent (entName: string) (entKind: kind)

definition isDirectory :: "dirent \<Rightarrow> bool" where
  "isDirectory e = (entKind e = KDirectory)"

definition isFile :: "dirent \<Rightarrow> bool" where
  "isFile e = (entKind e = KFile)"

record Stats =
  statKind :: kind
  statSize :: nat

fun kindOf :: "node \<Rightarrow> kind" where
  "kindOf (File c) = KFile"
| "kindOf (Dir es) = KDirectory"
| "kindOf Special = KOther"

fun sizeOf :: "node \<Rightarrow> nat" where
  "sizeOf (File c) = length c"
| "sizeOf (Dir es) = 0"
| "sizeOf Special = 0"

definition PATH_MAX :: nat where
  "PATH_MAX = 4096"

definition pathLength :: "path \<Rightarrow> nat" where
  "pathLength p = sum_list (map (\<lambda>c. Suc (length c)) p)"

fun walk :: "node \<Rightarrow> path \<Rightarrow> error + node" where
  "walk n [] = Inr n"
| "walk (Dir es) (x # p) = (case map_of es x of None \<Rightarrow> Inl ENOENT | Some c \<Rightarrow> walk c p)"
| "walk (File c) (x # p) = Inl ENOTDIR"
| "walk Special (x # p) = Inl ENOTDIR"

definition resolve :: "node \<Rightarrow> path \<Rightarrow> error + node" where
  "resolve fs p = (if PATH_MAX \<le> pathLength p then Inl ENAMETOOLONG else walk fs p)"

definition stat :: "node \<Rightarrow> path \<Rightarrow> error + Stats" where
  "stat fs p =
     (case resolve fs p of
        Inl e \<Rightarrow> Inl e
      | Inr n \<Rightarrow> Inr \<lparr>statKind = kindOf n, statSize = sizeOf n\<rparr>)"

text \<open>\<open>fs.readdir(p, { withFileTypes: true })\<close>\<close>

definition readdir :: "node \<Rightarrow> path \<Rightarrow> error + dirent list" where
  "readdir fs p =
     (case resolve fs p of
        Inl e \<Rightarrow> Inl e
      | Inr (Dir es) \<Rightarrow> Inr (map (\<lambda>(n, c). Dirent n (kindOf c)) es)
      | Inr (File c) \<Rightarrow> Inl ENOTDIR
      | Inr Special \<Rightarrow> Inl ENOTDIR)"

text \<open>
  \<open>fs.mkdir(p, { recursive: true })\<close>: missing ancestors are created, an existing directory
  is left as it is, an existing non-directory at \<open>p\<close> is \<open>EEXIST\<close> and one on the way to
  \<open>p\<close> is \<open>ENOTDIR\<close>.
\<close>

fun mkdirWalk :: "node \<Rightarrow> path \<Rightarrow> error + node" where
  "mkdirWalk (Dir es) [] = Inr (Dir es)"
| "mkdirWalk (File c) [] = Inl EEXIST"
| "mkdirWalk Special [] = Inl EEXIST"
| "mkdirWalk (Dir es) (x # p) =
     (case mkdirWalk (case map_of es x of None \<Rightarrow> Dir [] | Some c \<Rightarrow> c) p of
        Inl e \<Rightarrow> Inl e
      | Inr c' \<Rightarrow> Inr (Dir (AList.update x c' es)))"
| "mkdirWalk (File c) (x # p) = Inl ENOTDIR"
| "mkdirWalk Special (x # p) = Inl ENOTDIR"

definition mkdir :: "node \<Rightarrow> path \<Rightarrow> error + node" where
  "mkdir fs p = (if PATH_MAX \<le> pathLength p then Inl ENAMETOOLONG else mkdirWalk fs p)"

text \<open>
  \<open>fs.copyFile(src, dst)\<close>: \<open>src\<close> must be a regular file; the directory holding \<open>dst\<close>
  must exist; an existing regular file at \<open>dst\<close> is overwritten.
\<close>

fun putFile :: "node \<Rightarrow> path \<Rightarrow> string \<Rightarrow> error + node" where
  "putFile (Dir es) [] c = Inl EISDIR"
| "putFile (File old) [] c = Inr (File c)"
| "putFile Special [] c = Inl ENOTSUP"
| "putFile (Dir es) (x # p) c =
     (case map_of es x of
        None \<Rightarrow> if p = [] then Inr (Dir (AList.update x (File c) es)) else Inl ENOENT
      | Some ch \<Rightarrow>
          (case putFile ch p c of
             Inl e \<Rightarrow> Inl e
           | Inr ch' \<Rightarrow> Inr (Dir (AList.update x ch' es))))"
| "putFile (File old) (x # p) c = Inl ENOTDIR"
| "putFile Special (x # p) c = Inl ENOTDIR"

definition copyFile :: "node \<Rightarrow> path \<Rightarrow> path \<Rightarrow> error + node" where
  "copyFile fs src dst =
     (case resolve fs src of
        Inl e \<Rightarrow> Inl e
      | Inr (File c) \<Rightarrow>
          if PATH_MAX \<le> pathLength dst then Inl ENAMETOOLONG else putFile fs dst c
      | Inr (Dir es) \<Rightarrow> Inl EISDIR
      | Inr Special \<Rightarrow> Inl ENOTSUP)"

text \<open>
  \<open>fs.rm(p, { recursive: true, force: true })\<close>: the whole subtree at \<open>p\<close> goes; a
  missing \<open>p\<close> is not an error. Removing the root is not modelled.
\<close>

fun rmWalk :: "node \<Rightarrow> path \<Rightarrow> error + node" where
  "rmWalk n [] = Inl ENOTSUP"
| "rmWalk (Dir es) [x] = Inr (Dir (AList.delete x es))"
| "rmWalk (Dir es) (x # y # p) =
     (case map_of es x of
        None \<Rightarrow> Inr (Dir es)
      | Some c \<Rightarrow>
          (case rmWalk c (y # p) of
             Inl e \<Rightarrow> Inl e
           | Inr c' \<Rightarrow> Inr (Dir (AList.update x c' es))))"
| "rmWalk (File c) (x # p) = Inl ENOTDIR"
| "rmWalk Special (x # p) = Inl ENOTDIR"

definition rm :: "node \<Rightarrow> path \<Rightarrow> error + node" where
  "rm fs p = (if PATH_MAX \<le> pathLength p then Inl ENAMETOOLONG else rmWalk fs p)"

text \<open>
  \<open>path.relative(from, to)\<close> on POSIX, for absolute normalised paths: drop the common
  prefix, climb out of what is left of \<open>from\<close>, descend into what is left of \<open>to\<close>.
\<close>

fun joinPath :: "string list \<Rightarrow> string" where
  "joinPath [] = []"
| "joinPath [c] = c"
| "joinPath (c # d # r) = c @ ''/'' @ joinPath (d # r)"

fun relativeParts :: "path \<Rightarrow> path \<Rightarrow> path" where
  "relativeParts (a # from) (b # to) =
     (if a = b then relativeParts from to
      else replicate (Suc (length from)) ''..'' @ (b # to))"
| "relativeParts from [] = replicate (length from) ''..''"
| "relativeParts [] to = to"

definition relative :: "path \<Rightarrow> path \<Rightarrow> string" where
  "relative from to = joinPath (relativeParts from to)"

section \<open>FileSystem (core/fileSystem.ts)\<close>

text \<open>
  Every operation takes the file system and returns the file system it leaves behind
  together with its outcome: \<open>Inl\<close> an error thrown, \<open>Inr\<close> the value returned. What was
  written before an error stays written. The messages handed to the logger are left out.
\<close>

record CopyStats =
  filesCopied :: nat
  directoriesCreated :: nat
  bytesCopied :: nat
  skipped :: "string list"

text \<open>
  The recursion ends because every level makes the source path longer and \<open>readdir\<close>
  refuses a path that reaches \<open>PATH_MAX\<close>.
\<close>

lemma readdir_short: "readdir fs p = Inr es \<Longrightarrow> pathLength p < PATH_MAX"
  by (auto simp: readdir_def resolve_def split: if_splits)

lemma pathLength_snoc: "pathLength (p @ [n]) = pathLength p + Suc (length n)"
  by (simp add: pathLength_def)

definition copyMeasure ::
    "(node \<times> path \<times> path \<times> path \<times> string list \<times> CopyStats \<times> bool) +
     (node \<times> dirent list \<times> path \<times> path \<times> path \<times> string list \<times> CopyStats \<times> bool)
     \<Rightarrow> nat \<times> nat" where
  "copyMeasure x =
     (case x of
        Inl (fs, src, r) \<Rightarrow>
          (if PATH_MAX \<le> pathLength src then 0 else 2 * (PATH_MAX - pathLength src) + 2, 0)
      | Inr (fs, es, src, r) \<Rightarrow> (2 * (PATH_MAX - pathLength src) + 1, length es))"

function copyDirectoryRecursive ::
    "node \<Rightarrow> path \<Rightarrow> path \<Rightarrow> path \<Rightarrow> string list \<Rightarrow> CopyStats \<Rightarrow> bool \<Rightarrow> node \<times> (error + CopyStats)"
  and copyEntries ::
    "node \<Rightarrow> dirent list \<Rightarrow> path \<Rightarrow> path \<Rightarrow> path \<Rightarrow> string list \<Rightarrow> CopyStats \<Rightarrow> bool \<Rightarrow> node \<times> (error + CopyStats)"
where
  "copyDirectoryRecursive fs source destination rootSource excludePatterns stats dryRun =
     (case readdir fs source of
        Inl e \<Rightarrow> (fs, Inl e)
      | Inr entries \<Rightarrow>
          copyEntries fs entries source destination rootSource excludePatterns stats dryRun)"
| "copyEntries fs [] source destination rootSource excludePatterns stats dryRun = (fs, Inr stats)"
| "copyEntries fs (entry # rest) source destination rootSource excludePatterns stats dryRun =
     (let sourcePath = source @ [entName entry];
          relativePath = relative rootSource sourcePath;
          destinationPath = destination @ [entName entry]
      in case shouldExclude relativePath excludePatterns of
           Inl e \<Rightarrow> (fs, Inl e)
         | Inr True \<Rightarrow>
             copyEntries fs rest source destination rootSource excludePatterns
               (stats\<lparr>skipped := skipped stats @ [relativePath]\<rparr>) dryRun
         | Inr False \<Rightarrow>
             if isDirectory entry then
               (case (if \<not> dryRun
                      then (case mkdir fs destinationPath of
                              Inl e \<Rightarrow> (fs, Inl e)
                            | Inr fs' \<Rightarrow>
                                (fs', Inr (stats\<lparr>directoriesCreated := directoriesCreated stats + 1\<rparr>)))
                      else (fs, Inr stats)) of
                  (fs1, Inl e) \<Rightarrow> (fs1, Inl e)
                | (fs1, Inr stats1) \<Rightarrow>
                    (case copyDirectoryRecursive fs1 sourcePath destinationPath rootSource
                            excludePatterns stats1 dryRun of
                       (fs2, Inl e) \<Rightarrow> (fs2, Inl e)
                     | (fs2, Inr stats2) \<Rightarrow>
                         copyEntries fs2 rest source destination rootSource excludePatterns
                           stats2 dryRun))
             else if isFile entry then
               (if \<not> dryRun
                then (case stat fs sourcePath of
                        Inl e \<Rightarrow> (fs, Inl e)
                      | Inr fileStats \<Rightarrow>
                          (case copyFile fs sourcePath destinationPath of
                             Inl e \<Rightarrow> (fs, Inl e)
                           | Inr fs' \<Rightarrow>
                               copyEntries fs' rest source destination rootSource excludePatterns
                                 (stats\<lparr>filesCopied := filesCopied stats + 1,
                                        bytesCopied := bytesCopied stats + statSize fileStats\<rparr>)
                                 dryRun))
                else copyEntries fs rest source destination rootSource excludePatterns
                       (stats\<lparr>filesCopied := filesCopied stats + 1\<rparr>) dryRun)
             else copyEntries fs rest source destination rootSource excludePatterns stats dryRun)"
  by pat_completeness auto

termination
  by (relation "inv_image (less_than <*lex*> less_than) copyMeasure")
     (auto simp: copyMeasure_def pathLength_snoc dest: readdir_short)

declare copyEntries.simps(2) [simp del]

declare copyDirectoryRecursive.simps [simp del]

text \<open>The body of the loop, for one entry.\<close>

definition copyEntry ::
    "node \<Rightarrow> dirent \<Rightarrow> path \<Rightarrow> path \<Rightarrow> path \<Rightarrow> string list \<Rightarrow> CopyStats \<Rightarrow> bool \<Rightarrow> node \<times> (error + CopyStats)" where
  "copyEntry fs entry source destination rootSource excludePatterns stats dryRun =
     copyEntries fs [entry] source destination rootSource excludePatterns stats dryRun"

definition copyDirectory ::
    "node \<Rightarrow> path \<Rightarrow> path \<Rightarrow> string list \<Rightarrow> bool \<Rightarrow> node \<times> (error + CopyStats)" where
  "copyDirectory fs source destination excludePatterns dryRun =
     (let stats = \<lparr>filesCopied = 0, directoriesCreated = 0, bytesCopied = 0, skipped = []\<rparr>
      in case (if dryRun then (fs, Inr stats)
               else (case mkdir fs destination of
                       Inl e \<Rightarrow> (fs, Inl e)
                     | Inr fs' \<Rightarrow>
                         (fs', Inr (stats\<lparr>directoriesCreated := directoriesCreated stats + 1\<rparr>)))) of
           (fs1, Inl e) \<Rightarrow> (fs1, Inl e)
         | (fs1, Inr stats1) \<Rightarrow>
             copyDirectoryRecursive fs1 source destination source excludePatterns stats1 dryRun)"

definition ensureDirectoryExists :: "node \<Rightarrow> path \<Rightarrow> bool \<Rightarrow> node \<times> (error + unit)" where
  "ensureDirectoryExists fs dirPath dryRun =
     (if dryRun then (fs, Inr ())
      else (case mkdir fs dirPath of
              Inr fs' \<Rightarrow> (fs', Inr ())
            | Inl e \<Rightarrow>
                if e \<noteq> EEXIST then (fs, Inl (FailedToCreateDirectory dirPath e))
                else (fs, Inr ())))"

definition directoryExists :: "node \<Rightarrow> path \<Rightarrow> bool" where
  "directoryExists fs dirPath =
     (case stat fs dirPath of
        Inr stats \<Rightarrow> statKind stats = KDirectory
      | Inl e \<Rightarrow> False)"

definition removeDirectory :: "node \<Rightarrow> path \<Rightarrow> bool \<Rightarrow> node \<times> (error + unit)" where
  "removeDirectory fs dirPath dryRun =
     (if dryRun then (fs, Inr ())
      else (case rm fs dirPath of
              Inl e \<Rightarrow> (fs, Inl e)
            | Inr fs' \<Rightarrow> (fs', Inr ())))"

section \<open>Backup ids (\<open>generateBackupTimestamp\<close> in core/backupPlan.ts)\<close>

text \<open>
  \<open>new Date()\<close> is the time value of the clock, in milliseconds since the epoch.
  \<open>Date.prototype.toISOString\<close> is modelled after ECMAScript: the UTC fields of the time
  value, the year with four digits when it lies in 0 .. 9999 and with a sign and six digits
  otherwise. \<open>String.prototype.padStart\<close> pads to at least the width. \<open>MonthFromTime\<close>
  is the month as \<open>toISOString\<close> prints it, 1 to 12 (ECMAScript's \<open>MonthFromTime\<close> plus
  one).
\<close>

definition digitChar :: "nat \<Rightarrow> char" where
  "digitChar d = ''0123456789'' ! (d mod 10)"

function decimal :: "nat \<Rightarrow> string" where
  "decimal n = (if n < 10 then [digitChar n] else decimal (n div 10) @ [digitChar n])"
  by pat_completeness auto
termination
  by (relation "measure id") auto

declare decimal.simps [simp del]

definition padStart :: "nat \<Rightarrow> char \<Rightarrow> string \<Rightarrow> string" where
  "padStart w c s = replicate (w - length s) c @ s"

definition pad :: "nat \<Rightarrow> nat \<Rightarrow> string" where
  "pad w n = padStart w CHR ''0'' (decimal n)"

definition msPerDay :: int where
  "msPerDay = 86400000"

definition Day :: "int \<Rightarrow> int" where
  "Day t = t div msPerDay"

definition HourFromTime :: "int \<Rightarrow> nat" where
  "HourFromTime t = nat ((t div 3600000) mod 24)"

definition MinFromTime :: "int \<Rightarrow> nat" where
  "MinFromTime t = nat ((t div 60000) mod 60)"

definition SecFromTime :: "int \<Rightarrow> nat" where
  "SecFromTime t = nat ((t div 1000) mod 60)"

definition msFromTime :: "int \<Rightarrow> nat" where
  "msFromTime t = nat (t mod 1000)"

text \<open>
  The calendar date of a day number: days are counted from 0000-03-01 and split into the
  cycles of 400 years, of 100 years, of 4 years and of one year, each year running from
  March to February.
\<close>

definition dayOfEra :: "int \<Rightarrow> nat" where
  "dayOfEra t = nat ((Day t + 719468) mod 146097)"

definition era :: "int \<Rightarrow> int" where
  "era t = (Day t + 719468) div 146097"

definition centuryOfEra :: "int \<Rightarrow> nat" where
  "centuryOfEra t = min 3 (dayOfEra t div 36524)"

definition dayOfCentury :: "int \<Rightarrow> nat" where
  "dayOfCentury t = dayOfEra t - 36524 * centuryOfEra t"

definition quadOfCentury :: "int \<Rightarrow> nat" where
  "quadOfCentury t = dayOfCentury t div 1461"

definition dayOfQuad :: "int \<Rightarrow> nat" where
  "dayOfQuad t = dayOfCentury t mod 1461"

definition yearOfQuad :: "int \<Rightarrow> nat" where
  "yearOfQuad t = min 3 (dayOfQuad t div 365)"

definition dayOfMarchYear :: "int \<Rightarrow> nat" where
  "dayOfMarchYear t = dayOfQuad t - 365 * yearOfQuad t"

definition marchMonth :: "int \<Rightarrow> nat" where
  "marchMonth t = (5 * dayOfMarchYear t + 2) div 153"

definition DateFromTime :: "int \<Rightarrow> nat" where
  "DateFromTime t = dayOfMarchYear t - (153 * marchMonth t + 2) div 5 + 1"

definition MonthFromTime :: "int \<Rightarrow> nat" where
  "MonthFromTime t = (if marchMonth t < 10 then marchMonth t + 3 else marchMonth t - 9)"

definition YearFromTime :: "int \<Rightarrow> int" where
  "YearFromTime t =
     400 * era t + int (100 * centuryOfEra t + 4 * quadOfCentury t + yearOfQuad t)
     + (if MonthFromTime t \<le> 2 then 1 else 0)"

definition yearString :: "int \<Rightarrow> string" where
  "yearString y =
     (if 0 \<le> y \<and> y \<le> 9999 then pad 4 (nat y)
      else (if y < 0 then ''-'' else ''+'') @ pad 6 (nat \<bar>y\<bar>))"

definition toISOString :: "int \<Rightarrow> string" where
  "toISOString t =
     yearString (YearFromTime t) @ ''-'' @ pad 2 (MonthFromTime t) @ ''-'' @ pad 2 (DateFromTime t)
     @ ''T'' @ pad 2 (HourFromTime t) @ '':'' @ pad 2 (MinFromTime t) @ '':'' @ pad 2 (SecFromTime t)
     @ ''.'' @ pad 3 (msFromTime t) @ ''Z''"

definition generateBackupTimestamp :: "int \<Rightarrow> string" where
  "generateBackupTimestamp now =
     replaceAll '':'' ''-'' (takeWhile (\<lambda>c. c \<noteq> CHR ''.'') (toISOString now)) @ ''Z''"

text \<open>
  The shape of a string: \<open>d\<close> in the shape stands for a decimal digit, any other character
  for itself. The shape of a backup id is the one the repository's tests expect,
  \<open>/^\d{4}-\d{2}-\d{2}T\d{2}-\d{2}-\d{2}Z$/\<close>.
\<close>

definition isDigit :: "char \<Rightarrow> bool" where
  "isDigit c = (c \<in> set ''0123456789'')"

fun hasShape :: "string \<Rightarrow> string \<Rightarrow> bool" where
  "hasShape [] [] = True"
| "hasShape (p # ps) (c # cs) = ((if p = CHR ''d'' then isDigit c else c = p) \<and> hasShape ps cs)"
| "hasShape [] (c # cs) = False"
| "hasShape (p # ps) [] = False"

definition isBackupId :: "string \<Rightarrow> bool" where
  "isBackupId s = hasShape ''dddd-dd-ddTdd-dd-ddZ'' s"

section \<open>BackupPlan (core/backupPlan.ts) and its configuration types (core/config.ts)\<close>

text \<open>
  A path written in the configuration or on the command line is absolute or relative;
  \<open>path.resolve\<close> makes a relative one absolute against a base directory. An absolute path
  that the code hands to the file system as it is written is taken to be normalised.
  Project names and timestamps are taken to be single path components.
  \<open>maxBackupsPerProject\<close> is taken to be integral.
\<close>

datatype upath = Absolute path | Relative path

fun isAbsolute :: "upath \<Rightarrow> bool" where
  "isAbsolute (Absolute p) = True"
| "isAbsolute (Relative p) = False"

fun parts :: "upath \<Rightarrow> path" where
  "parts (Absolute p) = p"
| "parts (Relative p) = p"

fun dirname :: "upath \<Rightarrow> upath" where
  "dirname (Absolute p) = Absolute (butlast p)"
| "dirname (Relative p) = Relative (butlast p)"

text \<open>
  \<open>path.normalize\<close>, which \<open>path.resolve\<close> and \<open>path.join\<close> apply to their result: empty
  components and \<open>.\<close> go, \<open>..\<close> takes the component before it away; at the root of an
  absolute path \<open>..\<close> goes, at the front of a relative path it stays. The components kept so
  far are held in reverse.
\<close>

fun normalizeOnto :: "bool \<Rightarrow> path \<Rightarrow> path \<Rightarrow> path" where
  "normalizeOnto absolute kept [] = rev kept"
| "normalizeOnto absolute kept (c # cs) =
     (if c = [] \<or> c = ''.'' then normalizeOnto absolute kept cs
      else if c = ''..''
      then (if kept = [] \<or> hd kept = ''..''
            then normalizeOnto absolute (if absolute then kept else ''..'' # kept) cs
            else normalizeOnto absolute (tl kept) cs)
      else normalizeOnto absolute (c # kept) cs)"

definition pathJoin :: "upath \<Rightarrow> path \<Rightarrow> path" where
  "pathJoin p rest = normalizeOnto (isAbsolute p) [] (parts p @ rest)"

text \<open>\<open>path.resolve(base, p)\<close> for an absolute \<open>base\<close>: an absolute \<open>p\<close> wins.\<close>

fun pathResolve :: "path \<Rightarrow> upath \<Rightarrow> path" where
  "pathResolve base (Absolute p) = normalizeOnto True [] p"
| "pathResolve base (Relative p) = normalizeOnto True [] (base @ p)"

datatype BackupTarget =
    Local (targetName: string) (targetPath: upath)
  | Remote (targetName: string) (targetPath: upath)

record ProjectConfig =
  projName :: string
  projPath :: upath
  exclude :: "string list option"

record BackupInfo =
  timestamp :: string
  backupPath :: path
  projectName :: string

text \<open>
  What the engine takes from its platform: the working directory of the process and the
  collation behind \<open>String.prototype.localeCompare\<close> (negative, zero or positive), which
  depends on the locale data of the JavaScript engine.
\<close>

record platform =
  cwd :: path
  localeCompare :: "string \<Rightarrow> string \<Rightarrow> int"

text \<open>
  \<open>Array.prototype.sort(compareFn)\<close>: a stable sort; \<open>compareFn a b > 0\<close> puts \<open>a\<close> after
  \<open>b\<close>.
\<close>

fun insertBy :: "('a \<Rightarrow> 'a \<Rightarrow> int) \<Rightarrow> 'a \<Rightarrow> 'a list \<Rightarrow> 'a list" where
  "insertBy compareFn x [] = [x]"
| "insertBy compareFn x (y # ys) =
     (if compareFn x y \<le> 0 then x # y # ys else y # insertBy compareFn x ys)"

definition sortBy :: "('a \<Rightarrow> 'a \<Rightarrow> int) \<Rightarrow> 'a list \<Rightarrow> 'a list" where
  "sortBy compareFn xs = foldr (insertBy compareFn) xs []"

text \<open>\<open>Array.prototype.slice(start)\<close>: a negative start counts from the end.\<close>

definition slice :: "'a list \<Rightarrow> int \<Rightarrow> 'a list" where
  "slice xs start =
     (if start < 0 then drop (nat (int (length xs) + start)) xs else drop (nat start) xs)"

definition getBackupPath :: "platform \<Rightarrow> BackupTarget \<Rightarrow> string \<Rightarrow> string \<Rightarrow> upath option \<Rightarrow> path" where
  "getBackupPath pf target projName' stamp configPath =
     (case target of
        Local n tp \<Rightarrow>
          (let targetPath' =
                 (if isAbsolute tp then parts tp
                  else (case configPath of
                          Some cp \<Rightarrow> pathResolve (pathResolve (cwd pf) (dirname cp)) tp
                        | None \<Rightarrow> pathResolve (cwd pf) tp))
           in pathJoin (Absolute targetPath') [projName', stamp])
      | Remote n tp \<Rightarrow> pathJoin tp [projName', stamp])"

definition projectBackupDir :: "platform \<Rightarrow> upath \<Rightarrow> string \<Rightarrow> upath option \<Rightarrow> path" where
  "projectBackupDir pf tp projName' configPath =
     (if isAbsolute tp then pathJoin tp [projName']
      else (case configPath of
              Some cp \<Rightarrow>
                pathResolve (pathResolve (cwd pf) (dirname cp)) (Relative (parts tp @ [projName']))
            | None \<Rightarrow> pathResolve (cwd pf) (Relative (parts tp @ [projName']))))"

fun collectBackups :: "path \<Rightarrow> string \<Rightarrow> dirent list \<Rightarrow> BackupInfo list" where
  "collectBackups dir projName' [] = []"
| "collectBackups dir projName' (entry # rest) =
     (if isDirectory entry
      then \<lparr>timestamp = entName entry, backupPath = dir @ [entName entry],
            projectName = projName'\<rparr> # collectBackups dir projName' rest
      else collectBackups dir projName' rest)"

text \<open>
  Operations of \<open>BackupPlan\<close> also return the warnings they log; informational messages are
  not modelled.
\<close>

definition listBackups ::
    "platform \<Rightarrow> node \<Rightarrow> BackupTarget \<Rightarrow> string \<Rightarrow> upath option
     \<Rightarrow> string list \<times> (error + BackupInfo list)" where
  "listBackups pf fs target projName' configPath =
     (case target of
        Remote n tp \<Rightarrow> ([''Listing remote backups is not yet implemented''], Inr [])
      | Local n tp \<Rightarrow>
          (let dir = projectBackupDir pf tp projName' configPath
           in case readdir fs dir of
                Inr entries \<Rightarrow>
                  ([], Inr (sortBy (\<lambda>a b. localeCompare pf (timestamp b) (timestamp a))
                              (collectBackups dir projName' entries)))
              | Inl e \<Rightarrow>
                  if e \<noteq> ENOENT then ([], Inl (FailedToListBackups e)) else ([], Inr [])))"

fun removeExcess :: "node \<Rightarrow> BackupInfo list \<Rightarrow> path list \<Rightarrow> bool \<Rightarrow> node \<times> (error + path list)" where
  "removeExcess fs [] toRemove dryRun = (fs, Inr toRemove)"
| "removeExcess fs (backup # rest) toRemove dryRun =
     (if \<not> dryRun
      then (case removeDirectory fs (backupPath backup) False of
              (fs', Inl e) \<Rightarrow> (fs', Inl e)
            | (fs', Inr u) \<Rightarrow> removeExcess fs' rest (toRemove @ [backupPath backup]) dryRun)
      else removeExcess fs rest (toRemove @ [backupPath backup]) dryRun)"

definition applyRetention ::
    "platform \<Rightarrow> node \<Rightarrow> BackupTarget \<Rightarrow> string \<Rightarrow> int \<Rightarrow> upath option \<Rightarrow> bool
     \<Rightarrow> node \<times> string list \<times> (error + path list)" where
  "applyRetention pf fs target projName' maxBackups configPath dryRun =
     (case target of
        Remote n tp \<Rightarrow> (fs, [''Retention for remote backups is not yet implemented''], Inr [])
      | Local n tp \<Rightarrow>
          (case listBackups pf fs target projName' configPath of
             (w, Inl e) \<Rightarrow> (fs, w, Inl e)
           | (w, Inr backups) \<Rightarrow>
               if int (length backups) > maxBackups
               then (case removeExcess fs (slice backups maxBackups) [] dryRun of
                       (fs', r) \<Rightarrow> (fs', w, r))
               else (fs, w, Inr [])))"

definition createBackup ::
    "platform \<Rightarrow> node \<Rightarrow> ProjectConfig \<Rightarrow> BackupTarget \<Rightarrow> string \<Rightarrow> upath option \<Rightarrow> bool
     \<Rightarrow> node \<times> (error + path)" where
  "createBackup pf fs project target stamp configPath dryRun =
     (case target of
        Remote n tp \<Rightarrow> (fs, Inl RemoteNotImplemented)
      | Local n tp \<Rightarrow>
          (let backupPath' = getBackupPath pf target (projName project) stamp configPath;
               excludePatterns = (case exclude project of Some ps \<Rightarrow> ps | None \<Rightarrow> []);
               projectPath =
                 (if isAbsolute (projPath project) then parts (projPath project)
                  else (case configPath of
                          Some cp \<Rightarrow> pathResolve (pathResolve (cwd pf) (dirname cp)) (projPath project)
                        | None \<Rightarrow> pathResolve (cwd pf) (projPath project)))
           in case (if \<not> dryRun then ensureDirectoryExists fs backupPath' False
                    else (fs, Inr ())) of
                (fs1, Inl e) \<Rightarrow> (fs1, Inl e)
              | (fs1, Inr u) \<Rightarrow>
                  (case copyDirectory fs1 projectPath backupPath' excludePatterns dryRun of
                     (fs2, Inl e) \<Rightarrow> (fs2, Inl e)
                   | (fs2, Inr stats) \<Rightarrow> (fs2, Inr backupPath'))))"

definition restoreBackup :: "node \<Rightarrow> path \<Rightarrow> path \<Rightarrow> bool \<Rightarrow> node \<times> (error + unit)" where
  "restoreBackup fs backupPath' destination dryRun =
     (if directoryExists fs destination then (fs, Inl (DestinationExists destination))
      else if \<not> dryRun
      then (case ensureDirectoryExists fs destination False of
              (fs1, Inl e) \<Rightarrow> (fs1, Inl e)
            | (fs1, Inr u) \<Rightarrow>
                (case copyDirectory fs1 backupPath' destination [] False of
                   (fs2, Inl e) \<Rightarrow> (fs2, Inl e)
                 | (fs2, Inr stats) \<Rightarrow> (fs2, Inr ())))
      else (fs, Inr ()))"

section \<open>The restore command (commands/restore.ts)\<close>

text \<open>
  The command looks the backup up in the listing of the configured target and hands its
  path to \<open>restoreBackup\<close>; an error ends the process with exit code 1. Loading the
  configuration is left out: the project name and the target are what it returns.
\<close>

definition restoreCommand ::
    "platform \<Rightarrow> node \<Rightarrow> BackupTarget \<Rightarrow> string \<Rightarrow> string \<Rightarrow> upath \<Rightarrow> bool \<Rightarrow> upath option
     \<Rightarrow> node \<times> string list \<times> (error + unit)" where
  "restoreCommand pf fs target projName' backup dest dryRun optConfigPath =
     (let configPath = (case optConfigPath of Some cp \<Rightarrow> cp | None \<Rightarrow> Absolute (cwd pf))
      in case listBackups pf fs target projName' (Some configPath) of
           (w, Inl e) \<Rightarrow> (fs, w, Inl e)
         | (w, Inr backups) \<Rightarrow>
             (case find (\<lambda>b. timestamp b = backup) backups of
                None \<Rightarrow> (fs, w, Inl (BackupNotFound backup projName'))
              | Some backupInfo \<Rightarrow>
                  (case restoreBackup fs (backupPath backupInfo) (pathResolve (cwd pf) dest) dryRun of
                     (fs', r) \<Rightarrow> (fs', w, r))))"

section \<open>The glob rule as the specification words it\<close>

text \<open>
  The specification's rule for one pattern, kept apart from the code's translation above:
  \<open>**\<close> matches zero or more path segments, so any run of characters, \<open>/\<close> included;
  \<open>*\<close> matches any run of characters other than \<open>/\<close>; every other character matches
  itself; the whole path must match. A pattern that occurs in the path as a substring
  matches as well.
\<close>

datatype globToken = GChar char | GStar | GDoubleStar

fun globTokens :: "string \<Rightarrow> globToken list" where
  "globTokens [] = []"
| "globTokens [c] = (if c = CHR ''*'' then [GStar] else [GChar c])"
| "globTokens (c # d # r) =
     (if c = CHR ''*'' \<and> d = CHR ''*'' then GDoubleStar # globTokens r
      else if c = CHR ''*'' then GStar # globTokens (d # r)
      else GChar c # globTokens (d # r))"

fun globMatch :: "globToken list \<Rightarrow> string \<Rightarrow> bool" where
  "globMatch [] s = (s = [])"
| "globMatch (GChar c # ts) [] = False"
| "globMatch (GChar c # ts) (d # s) = (c = d \<and> globMatch ts s)"
| "globMatch (GStar # ts) [] = globMatch ts []"
| "globMatch (GStar # ts) (d # s) =
     ((d \<noteq> CHR ''/'' \<and> globMatch (GStar # ts) s) \<or> globMatch ts (d # s))"
| "globMatch (GDoubleStar # ts) [] = globMatch ts []"
| "globMatch (GDoubleStar # ts) (d # s) =
     (globMatch (GDoubleStar # ts) s \<or> globMatch ts (d # s))"

fun specExcludesLoop :: "string \<Rightarrow> string list \<Rightarrow> bool" where
  "specExcludesLoop normalizedPath [] = False"
| "specExcludesLoop normalizedPath (pattern # rest) =
     (globMatch (globTokens (replaceAll [backslash] ''/'' pattern)) normalizedPath
      \<or> includesStr normalizedPath (replaceAll [backslash] ''/'' pattern)
      \<or> specExcludesLoop normalizedPath rest)"

definition specExcludes :: "string \<Rightarrow> string list \<Rightarrow> bool" where
  "specExcludes relativePath excludePatterns =
     specExcludesLoop (replaceAll [backslash] ''/'' relativePath) excludePatterns"

section \<open>A file system and a platform to run the engine on\<close>

definition fsExample :: node where
  "fsExample =
     Dir [(''project'',
           Dir [(''a.txt'', File ''aa''), (''b.txt'', File ''bbb''),
                (''node_modules'', Dir [(''x.json'', File ''{}'')]),
                (''link'', Special)]),
          (''backups'',
           Dir [(''app'',
                 Dir [(''2025-01-15T10-00-00Z'', Dir [(''a.txt'', File ''aa'')]),
                      (''2025-01-15T12-00-00Z'', Dir []),
                      (''2025-01-15T11-00-00Z'', Dir []),
                      (''notes.txt'', File ''n'')])])]"

definition codeUnitCompare :: "string \<Rightarrow> string \<Rightarrow> int" where
  "codeUnitCompare a b = (if a < b then - 1 else if b < a then 1 else 0)"

definition pfExample :: platform where
  "pfExample = \<lparr>cwd = [''home'', ''user''], localeCompare = codeUnitCompare\<rparr>"

text \<open>
  A collation in the manner of the locale data that Node ships (ICU), as far as ASCII letters
  go: strings are compared without regard to case first (\<open>a\<close> before \<open>B\<close> before \<open>c\<close>), and
  of two strings that differ in case only the one with the lower-case letter comes first.
\<close>

definition foldCase :: "char \<Rightarrow> char" where
  "foldCase c =
     (case map_of (zip ''ABCDEFGHIJKLMNOPQRSTUVWXYZ'' ''abcdefghijklmnopqrstuvwxyz'') c of
        Some l \<Rightarrow> l
      | None \<Rightarrow> c)"

definition letterCompare :: "string \<Rightarrow> string \<Rightarrow> int" where
  "letterCompare a b =
     (if map foldCase a < map foldCase b then - 1
      else if map foldCase b < map foldCase a then 1
      else if a = b then 0
      else if b < a then - 1
      else 1)"

definition pfLocale :: platform where
  "pfLocale = \<lparr>cwd = [''home'', ''user''], localeCompare = letterCompare\<rparr>"

definition fsLetters :: node where
  "fsLetters =
     Dir [(''backups'', Dir [(''app'', Dir [(''B'', Dir []), (''a'', Dir []), (''c'', Dir [])])])]"

section \<open>Notions for comparing a real copy with a simulated one\<close>

text \<open>What a write below \<open>d\<close> leaves alone: every path that is neither above nor below \<open>d\<close>.\<close>

definition frame :: "path \<Rightarrow> node \<Rightarrow> node \<Rightarrow> bool" where
  "frame d fs fs' = (\<forall>p. \<not> prefix d p \<longrightarrow> \<not> prefix p d \<longrightarrow> walk fs' p = walk fs p)"

text \<open>Two file systems that hold the same tree at \<open>s\<close>.\<close>

definition agree :: "path \<Rightarrow> node \<Rightarrow> node \<Rightarrow> bool" where
  "agree s fs0 fs = (\<forall>q. walk fs0 (s @ q) = walk fs (s @ q))"

text \<open>
  A run, real or simulated, of a part of the copy is a function of the file system, the
  statistics so far and the \<open>dryRun\<close> flag. The real run of it is simulated when, whenever
  the real run succeeds, (1) it has written nowhere but below the destination, (2) it has
  not lowered \<open>directoriesCreated\<close>, and (3) it has added some number of files and some
  list of skipped paths that the simulated run adds as well, from any statistics and on any
  file system holding the same source tree, leaving that file system as it is.
\<close>

definition bump :: "CopyStats \<Rightarrow> nat \<Rightarrow> string list \<Rightarrow> CopyStats" where
  "bump st nf sk = st\<lparr>filesCopied := filesCopied st + nf, skipped := skipped st @ sk\<rparr>"

definition simulated ::
    "(node \<Rightarrow> CopyStats \<Rightarrow> bool \<Rightarrow> node \<times> (error + CopyStats)) \<Rightarrow> path \<Rightarrow> path \<Rightarrow> node
     \<Rightarrow> CopyStats \<Rightarrow> bool" where
  "simulated run source destination fs stats =
     (\<forall>fs' st'. run fs stats False = (fs', Inr st') \<longrightarrow>
        frame destination fs fs'
        \<and> directoriesCreated stats \<le> directoriesCreated st'
        \<and> (\<exists>nf sk. filesCopied st' = filesCopied stats + nf
              \<and> skipped st' = skipped stats @ sk
              \<and> (\<forall>fs0 st0. agree source fs0 fs \<longrightarrow>
                    run fs0 st0 True = (fs0, Inr (bump st0 nf sk)))))"

section \<open>The exclusion matcher\<close>

lemma regexPattern_src_double_star:
  "regexPattern ''src/**'' = ''src/'' @ [backslash, CHR ''.'', CHR ''*'']"
  by (simp add: regexPattern_def)

lemma shouldExclude_Nil: "shouldExclude relativePath [] = Inr False"
  by (simp add: shouldExclude_def)

text \<open>
  C1. The matcher is meant to return true exactly when some pattern matches the whole
  normalised path under the glob rule (\<open>**\<close> for zero or more path segments, \<open>*\<close> for a run
  of characters other than \<open>/\<close>) or occurs in it as a substring. The code escapes the dots of
  the pattern after it has put \<open>.*\<close> in the place of \<open>**\<close>, so \<open>**\<close> ends up as \<open>\.*\<close>, a
  run of literal dots: for the path \<open>src/a/b.ts\<close> and the pattern \<open>src/**\<close> the glob rule
  matches and the code answers false.
\<close>

theorem shouldExclude_double_star_diverges:
  "shouldExclude ''src/a/b.ts'' [''src/**''] = Inr False
   \<and> specExcludes ''src/a/b.ts'' [''src/**''] = True"
  by (simp add: shouldExclude_def specExcludes_def matchesPattern_def regexPattern_def
        newRegExp_def parseItems.simps parseAtom_def metachar_def)

section \<open>The restore guard\<close>

lemma directoryExists_Dir: "resolve fs p = Inr (Dir es) \<Longrightarrow> directoryExists fs p"
  by (simp add: directoryExists_def stat_def)

lemma directoryExists_File: "resolve fs p = Inr (File c) \<Longrightarrow> \<not> directoryExists fs p"
  by (simp add: directoryExists_def stat_def)

lemma mkdirWalk_File: "walk n p = Inr (File c) \<Longrightarrow> mkdirWalk n p = Inl EEXIST"
proof (induction n p rule: walk.induct)
  case (1 n)
  then show ?case by simp
next
  case (2 es x p)
  then show ?case by (auto split: option.splits)
qed simp_all

lemma mkdir_File: "resolve fs p = Inr (File c) \<Longrightarrow> mkdir fs p = Inl EEXIST"
  by (auto simp: resolve_def mkdir_def mkdirWalk_File split: if_splits)

text \<open>
  C3. Whenever the restore destination already exists as a directory, \<open>restoreBackup\<close>
  fails with the destination-exists error and leaves the file system as it found it,
  whether or not it is simulating.
\<close>

theorem restoreBackup_guard:
  assumes "resolve fs destination = Inr (Dir es)"
  shows "restoreBackup fs backupPath' destination dryRun
         = (fs, Inl (DestinationExists destination))"
  using assms by (simp add: restoreBackup_def directoryExists_Dir)

lemma PATH_MAX_numeral: "PATH_MAX = 4096"
  by (simp add: PATH_MAX_def)

theorem restoreBackup_guard_witness:
  "resolve fsExample [''project''] =
     Inr (Dir [(''a.txt'', File ''aa''), (''b.txt'', File ''bbb''),
               (''node_modules'', Dir [(''x.json'', File ''{}'')]),
               (''link'', Special)])
   \<and> restoreBackup fsExample [''backups'', ''app'', ''2025-01-15T10-00-00Z''] [''project''] False
       = (fsExample, Inl (DestinationExists [''project'']))
   \<and> restoreBackup fsExample [''backups'', ''app'', ''2025-01-15T10-00-00Z''] [''project''] True
       = (fsExample, Inl (DestinationExists [''project'']))"
proof -
  have h: "resolve fsExample [''project''] =
     Inr (Dir [(''a.txt'', File ''aa''), (''b.txt'', File ''bbb''),
               (''node_modules'', Dir [(''x.json'', File ''{}'')]),
               (''link'', Special)])"
    by (simp add: resolve_def fsExample_def pathLength_def PATH_MAX_numeral)
  show ?thesis
    using h restoreBackup_guard [OF h, of "[''backups'', ''app'', ''2025-01-15T10-00-00Z'']" False]
      restoreBackup_guard [OF h, of "[''backups'', ''app'', ''2025-01-15T10-00-00Z'']" True]
    by simp
qed

text \<open>
  C9, as the code has it. If the restore destination exists as a regular file, the guard
  does not fire, because the existence check answers true only for directories: no
  destination-exists error is raised. A simulated restore reports success. A real restore
  does not take place: \<open>ensureDirectoryExists\<close> swallows the \<open>EEXIST\<close> of its \<open>mkdir\<close>,
  then the \<open>mkdir\<close> of \<open>copyDirectory\<close> finds the file and fails with \<open>EEXIST\<close>, and
  nothing has been written.
\<close>

theorem restoreBackup_file_destination:
  assumes "resolve fs destination = Inr (File c)"
  shows "\<not> directoryExists fs destination
         \<and> snd (restoreBackup fs backupPath' destination dryRun)
             \<noteq> Inl (DestinationExists destination)
         \<and> restoreBackup fs backupPath' destination True = (fs, Inr ())
         \<and> ensureDirectoryExists fs destination False = (fs, Inr ())
         \<and> copyDirectory fs backupPath' destination [] False = (fs, Inl EEXIST)
         \<and> restoreBackup fs backupPath' destination False = (fs, Inl EEXIST)"
proof -
  have guard: "\<not> directoryExists fs destination"
    using assms by (rule directoryExists_File)
  have mk: "mkdir fs destination = Inl EEXIST"
    using assms by (rule mkdir_File)
  have ens: "ensureDirectoryExists fs destination False = (fs, Inr ())"
    by (simp add: ensureDirectoryExists_def mk)
  have cp: "copyDirectory fs backupPath' destination [] False = (fs, Inl EEXIST)"
    by (simp add: copyDirectory_def mk)
  have val: "restoreBackup fs backupPath' destination d
             = (fs, if d then Inr () else Inl EEXIST)" for d
    by (simp add: restoreBackup_def guard ens cp)
  from guard val ens cp show ?thesis by simp
qed

theorem restoreBackup_file_destination_witness:
  "resolve fsExample [''project'', ''a.txt''] = Inr (File ''aa'')
   \<and> restoreBackup fsExample [''backups'', ''app'', ''2025-01-15T10-00-00Z'']
        [''project'', ''a.txt''] True = (fsExample, Inr ())
   \<and> restoreBackup fsExample [''backups'', ''app'', ''2025-01-15T10-00-00Z'']
        [''project'', ''a.txt''] False = (fsExample, Inl EEXIST)"
proof -
  have h: "resolve fsExample [''project'', ''a.txt''] = Inr (File ''aa'')"
    by (simp add: resolve_def fsExample_def pathLength_def PATH_MAX_numeral)
  show ?thesis
    using h
      restoreBackup_file_destination
        [OF h, of "[''backups'', ''app'', ''2025-01-15T10-00-00Z'']" True]
      restoreBackup_file_destination
        [OF h, of "[''backups'', ''app'', ''2025-01-15T10-00-00Z'']" False]
    by simp
qed

text \<open>
  A real restore onto the regular file \<open>project/a.txt\<close> of a backup that holds one file:
  it ends in \<open>EEXIST\<close>, the file system as it was, nothing restored.
\<close>

theorem restoreBackup_onto_file_fails:
  "readdir fsExample [''backups'', ''app'', ''2025-01-15T10-00-00Z''] = Inr [Dirent ''a.txt'' KFile]
   \<and> restoreBackup fsExample [''backups'', ''app'', ''2025-01-15T10-00-00Z'']
         [''project'', ''a.txt''] False = (fsExample, Inl EEXIST)"
  by (simp add: restoreBackup_def directoryExists_def stat_def ensureDirectoryExists_def
        copyDirectory_def mkdir_def readdir_def resolve_def pathLength_def PATH_MAX_numeral
        fsExample_def)

section \<open>The copy loop, entry by entry\<close>

lemma copyEntries_Cons_bind:
  "copyEntries fs (entry # rest) source destination rootSource pats stats dryRun =
     (case copyEntry fs entry source destination rootSource pats stats dryRun of
        (fs1, Inl e) \<Rightarrow> (fs1, Inl e)
      | (fs1, Inr stats1) \<Rightarrow>
          copyEntries fs1 rest source destination rootSource pats stats1 dryRun)"
proof (cases "shouldExclude (relative rootSource (source @ [entName entry])) pats")
  case (Inl e)
  then show ?thesis by (simp add: copyEntry_def copyEntries.simps)
next
  case (Inr b)
  show ?thesis
  proof (cases b)
    case True
    with Inr show ?thesis by (simp add: copyEntry_def copyEntries.simps Let_def)
  next
    case False
    show ?thesis
    proof (cases "isDirectory entry")
      case True
      with Inr \<open>\<not> b\<close> show ?thesis
        by (cases dryRun)
           (simp_all add: copyEntry_def copyEntries.simps Let_def split: sum.split prod.split)
    next
      case notdir: False
      show ?thesis
      proof (cases "isFile entry")
        case True
        with Inr \<open>\<not> b\<close> notdir show ?thesis
          by (cases dryRun)
             (simp_all add: copyEntry_def copyEntries.simps Let_def split: sum.split)
      next
        case False
        with Inr \<open>\<not> b\<close> notdir show ?thesis
          by (simp add: copyEntry_def copyEntries.simps Let_def)
      qed
    qed
  qed
qed

lemma copyEntries_append:
  "copyEntries fs (xs @ ys) source destination rootSource pats stats dryRun =
     (case copyEntries fs xs source destination rootSource pats stats dryRun of
        (fs1, Inl e) \<Rightarrow> (fs1, Inl e)
      | (fs1, Inr stats1) \<Rightarrow>
          copyEntries fs1 ys source destination rootSource pats stats1 dryRun)"
proof (induction xs arbitrary: fs stats)
  case Nil
  then show ?case by simp
next
  case (Cons x xs)
  show ?case
    by (simp add: copyEntries_Cons_bind [of _ x] Cons.IH split: sum.split prod.split)
qed

lemma copyEntry_error:
  "shouldExclude (relative rootSource (source @ [entName entry])) pats = Inl e \<Longrightarrow>
   copyEntry fs entry source destination rootSource pats stats dryRun = (fs, Inl e)"
  by (simp add: copyEntry_def copyEntries.simps)

lemma copyEntry_excluded:
  "shouldExclude (relative rootSource (source @ [entName entry])) pats = Inr True \<Longrightarrow>
   copyEntry fs entry source destination rootSource pats stats dryRun =
     (fs, Inr (stats\<lparr>skipped := skipped stats @ [relative rootSource (source @ [entName entry])]\<rparr>))"
  by (simp add: copyEntry_def copyEntries.simps Let_def)

lemma copyEntry_other:
  "shouldExclude (relative rootSource (source @ [entName entry])) pats = Inr False \<Longrightarrow>
   \<not> isDirectory entry \<Longrightarrow> \<not> isFile entry \<Longrightarrow>
   copyEntry fs entry source destination rootSource pats stats dryRun = (fs, Inr stats)"
  by (simp add: copyEntry_def copyEntries.simps Let_def)

lemma copyEntry_file_dry:
  "shouldExclude (relative rootSource (source @ [entName entry])) pats = Inr False \<Longrightarrow>
   \<not> isDirectory entry \<Longrightarrow> isFile entry \<Longrightarrow>
   copyEntry fs entry source destination rootSource pats stats True =
     (fs, Inr (stats\<lparr>filesCopied := filesCopied stats + 1\<rparr>))"
  by (simp add: copyEntry_def copyEntries.simps Let_def)

lemma copyEntry_file_real:
  "shouldExclude (relative rootSource (source @ [entName entry])) pats = Inr False \<Longrightarrow>
   \<not> isDirectory entry \<Longrightarrow> isFile entry \<Longrightarrow>
   copyEntry fs entry source destination rootSource pats stats False =
     (case stat fs (source @ [entName entry]) of
        Inl e \<Rightarrow> (fs, Inl e)
      | Inr fileStats \<Rightarrow>
          (case copyFile fs (source @ [entName entry]) (destination @ [entName entry]) of
             Inl e \<Rightarrow> (fs, Inl e)
           | Inr fs' \<Rightarrow>
               (fs', Inr (stats\<lparr>filesCopied := filesCopied stats + 1,
                                 bytesCopied := bytesCopied stats + statSize fileStats\<rparr>))))"
  by (simp add: copyEntry_def copyEntries.simps Let_def split: sum.split)

lemma copyEntry_directory_dry:
  "shouldExclude (relative rootSource (source @ [entName entry])) pats = Inr False \<Longrightarrow>
   isDirectory entry \<Longrightarrow>
   copyEntry fs entry source destination rootSource pats stats True =
     copyDirectoryRecursive fs (source @ [entName entry]) (destination @ [entName entry])
       rootSource pats stats True"
  by (simp add: copyEntry_def copyEntries.simps Let_def split: sum.split prod.split)

lemma copyEntry_directory_real:
  "shouldExclude (relative rootSource (source @ [entName entry])) pats = Inr False \<Longrightarrow>
   isDirectory entry \<Longrightarrow>
   copyEntry fs entry source destination rootSource pats stats False =
     (case mkdir fs (destination @ [entName entry]) of
        Inl e \<Rightarrow> (fs, Inl e)
      | Inr fs' \<Rightarrow>
          copyDirectoryRecursive fs' (source @ [entName entry]) (destination @ [entName entry])
            rootSource pats (stats\<lparr>directoriesCreated := directoriesCreated stats + 1\<rparr>) False)"
  by (simp add: copyEntry_def copyEntries.simps Let_def split: sum.split prod.split)

section \<open>Exclusion and entries that are neither files nor directories\<close>


text \<open>
  C10, as the code has it. An entry that is neither a regular file nor a directory and
  whose relative path matches no exclusion pattern is ignored without a trace: the copy
  of the directory is the copy of its listing without that entry. (The exclusion test
  comes before the test of the entry's type, so such an entry whose path does match a
  pattern is recorded in \<open>skipped\<close> like any other.)
\<close>

theorem special_entry_ignored:
  assumes "readdir fs source = Inr (pre @ entry # post)"
    and "\<not> isDirectory entry" and "\<not> isFile entry"
    and "shouldExclude (relative rootSource (source @ [entName entry])) pats = Inr False"
  shows "copyDirectoryRecursive fs source destination rootSource pats stats dryRun =
           copyEntries fs (pre @ post) source destination rootSource pats stats dryRun"
  using assms
  by (simp add: copyDirectoryRecursive.simps copyEntries_append
        copyEntries_Cons_bind [of _ entry] copyEntry_other
      split: sum.split prod.split)

section \<open>Remote targets\<close>

text \<open>
  C8, as the code has it. For a remote target \<open>listBackups\<close> returns the empty list with a
  warning and \<open>createBackup\<close> fails with the not-implemented error, the file system
  untouched. \<open>restoreBackup\<close> is not given the target and makes no such test; the restore
  command, which looks the backup up in the (empty) listing first, fails with
  backup-not-found, the file system untouched.
\<close>

theorem remote_target_operations:
  "listBackups pf fs (Remote n tp) projName' configPath
     = ([''Listing remote backups is not yet implemented''], Inr [])
   \<and> createBackup pf fs project (Remote n tp) stamp configPath dryRun
     = (fs, Inl RemoteNotImplemented)
   \<and> restoreCommand pf fs (Remote n tp) projName' backup dest dryRun optConfigPath
     = (fs, [''Listing remote backups is not yet implemented''],
        Inl (BackupNotFound backup projName'))"
  by (simp add: listBackups_def createBackup_def restoreCommand_def)

section \<open>Backup ids\<close>

lemma replaceAll_single:
  "replaceAll [c] r s = concat (map (\<lambda>x. if x = c then r else [x]) s)"
  by (induction s) auto

lemma isDigit_digitChar: "isDigit (digitChar d)"
proof -
  have "d mod 10 < length ''0123456789''" by simp
  then have "''0123456789'' ! (d mod 10) \<in> set ''0123456789''" by (rule nth_mem)
  then show ?thesis by (simp only: isDigit_def digitChar_def)
qed

lemma decimal_digits: "\<forall>c \<in> set (decimal n). isDigit c"
proof (induction n rule: decimal.induct)
  case (1 n)
  show ?case
  proof (cases "n < 10")
    case True
    then show ?thesis by (subst decimal.simps) (simp add: isDigit_digitChar)
  next
    case False
    with 1 show ?thesis by (subst decimal.simps) (simp add: isDigit_digitChar)
  qed
qed

lemma decimal_length: "n < 10 ^ k \<Longrightarrow> 0 < k \<Longrightarrow> length (decimal n) \<le> k"
proof (induction n arbitrary: k rule: decimal.induct)
  case (1 n)
  show ?case
  proof (cases "n < 10")
    case True
    with 1(3) show ?thesis by (subst decimal.simps) simp
  next
    case False
    obtain j where k: "k = Suc j" using 1(3) by (cases k) auto
    from False 1(2) k have j: "0 < j" by (cases j) auto
    from 1(2) k have "n div 10 < 10 ^ j"
      by (simp add: less_mult_imp_div_less mult.commute)
    with 1(1) [OF False _ j] have "length (decimal (n div 10)) \<le> j" by simp
    with False k show ?thesis by (subst decimal.simps) simp
  qed
qed

lemma isDigit_zero: "isDigit CHR ''0''"
  by (simp add: isDigit_def)

lemma pad_digits: "\<forall>c \<in> set (pad w n). isDigit c"
  using decimal_digits [of n] by (auto simp: pad_def padStart_def isDigit_zero)

lemma pad_length: "n < 10 ^ w \<Longrightarrow> 0 < w \<Longrightarrow> length (pad w n) = w"
  using decimal_length [of n w] by (simp add: pad_def padStart_def)

lemma hasShape_append:
  "length p = length s \<Longrightarrow> hasShape (p @ q) (s @ u) = (hasShape p s \<and> hasShape q u)"
  by (induction p s rule: hasShape.induct) auto

lemma hasShape_appendI:
  "hasShape p s \<Longrightarrow> hasShape q u \<Longrightarrow> hasShape (p @ q) (s @ u)"
  by (induction p s rule: hasShape.induct) auto

lemma hasShape_digits:
  "\<forall>c \<in> set s. isDigit c \<Longrightarrow> hasShape (replicate (length s) CHR ''d'') s"
  by (induction s) auto

lemma hasShape_pad: "n < 10 ^ w \<Longrightarrow> 0 < w \<Longrightarrow> hasShape (replicate w CHR ''d'') (pad w n)"
  using hasShape_digits [OF pad_digits, of w n] by (simp add: pad_length)

lemma not_digit: "\<not> isDigit CHR '':''" "\<not> isDigit CHR ''.''" "\<not> isDigit CHR ''-''" "\<not> isDigit CHR ''+''"
  by (simp_all add: isDigit_def)

lemma pad_no_colon: "CHR '':'' \<notin> set (pad w n)" and pad_no_dot: "CHR ''.'' \<notin> set (pad w n)"
  using pad_digits [of w n] not_digit by blast+

lemma replace_colon_pad: "replaceAll '':'' ''-'' (pad w n) = pad w n"
proof -
  have "concat (map (\<lambda>x. if x = CHR '':'' then ''-'' else [x]) s) = s" if "CHR '':'' \<notin> set s" for s
    using that by (induction s) auto
  then show ?thesis by (simp add: replaceAll_single pad_no_colon)
qed

lemma replaceAll_single_append:
  "replaceAll [c] r (s @ u) = replaceAll [c] r s @ replaceAll [c] r u"
  by (simp add: replaceAll_single)

lemma yearString_no_dot: "CHR ''.'' \<notin> set (yearString y)"
  by (simp add: yearString_def pad_no_dot)

lemma replace_colon_yearString: "replaceAll '':'' ''-'' (yearString y) = yearString y"
  by (simp add: yearString_def replaceAll_single_append replace_colon_pad)

lemma takeWhile_append_stop: "c \<notin> set s \<Longrightarrow> takeWhile (\<lambda>x. x \<noteq> c) (s @ c # u) = s"
  by (induction s) auto

lemma generateBackupTimestamp_fields:
  "generateBackupTimestamp now =
     yearString (YearFromTime now) @ ''-'' @ pad 2 (MonthFromTime now) @ ''-''
     @ pad 2 (DateFromTime now) @ ''T'' @ pad 2 (HourFromTime now) @ ''-''
     @ pad 2 (MinFromTime now) @ ''-'' @ pad 2 (SecFromTime now) @ ''Z''"
proof -
  let ?A = "yearString (YearFromTime now) @ ''-'' @ pad 2 (MonthFromTime now) @ ''-''
     @ pad 2 (DateFromTime now) @ ''T'' @ pad 2 (HourFromTime now) @ '':''
     @ pad 2 (MinFromTime now) @ '':'' @ pad 2 (SecFromTime now)"
  have iso: "toISOString now = ?A @ CHR ''.'' # (pad 3 (msFromTime now) @ ''Z'')"
    by (simp add: toISOString_def)
  have nodot: "CHR ''.'' \<notin> set ?A"
    by (simp add: yearString_no_dot pad_no_dot)
  have tw: "takeWhile (\<lambda>c. c \<noteq> CHR ''.'') (toISOString now) = ?A"
    unfolding iso using nodot by (rule takeWhile_append_stop)
  show ?thesis
    unfolding generateBackupTimestamp_def tw
    by (simp add: replaceAll_single_append replace_colon_pad replace_colon_yearString)
qed

lemma dayOfMarchYear_le: "dayOfMarchYear t \<le> 365"
proof -
  have "dayOfQuad t < 1461" by (simp add: dayOfQuad_def)
  then show ?thesis
    unfolding dayOfMarchYear_def yearOfQuad_def by (auto simp: min_def) 
qed

lemma marchMonth_le: "marchMonth t \<le> 11"
  using dayOfMarchYear_le [of t] unfolding marchMonth_def by simp

lemma MonthFromTime_bounds: "1 \<le> MonthFromTime t \<and> MonthFromTime t \<le> 12"
  using marchMonth_le [of t] by (auto simp: MonthFromTime_def)

lemma DateFromTime_bounds: "1 \<le> DateFromTime t \<and> DateFromTime t \<le> 31"
proof -
  define d where "d = dayOfMarchYear t"
  define m where "m = (5 * d + 2) div 153"
  have "153 * m \<le> 5 * d + 2" "5 * d + 2 < 153 * m + 153"
    unfolding m_def by (simp_all add: times_div_less_eq_dividend dividend_less_times_div)
  then have "(153 * m + 2) div 5 \<le> d" "d \<le> (153 * m + 2) div 5 + 30"
    by linarith+
  then show ?thesis
    unfolding DateFromTime_def marchMonth_def d_def [symmetric] m_def [symmetric] by linarith
qed

lemma time_bounds: "HourFromTime t < 24" "MinFromTime t < 60" "SecFromTime t < 60"
  by (simp_all add: HourFromTime_def MinFromTime_def SecFromTime_def nat_less_iff)

lemma replicate_4: "replicate 4 c = [c, c, c, c]"
  by (simp add: numeral_eq_Suc)

lemma replicate_2: "replicate 2 c = [c, c]"
  by (simp add: numeral_eq_Suc)

lemma hasShape_pad4: "n \<le> 9999 \<Longrightarrow> hasShape ''dddd'' (pad 4 n)"
  using hasShape_pad [of n 4] by (simp add: replicate_4)

lemma hasShape_pad2: "n < 100 \<Longrightarrow> hasShape ''dd'' (pad 2 n)"
  using hasShape_pad [of n 2] by (simp add: replicate_2)

lemmas ts_eval = generateBackupTimestamp_def toISOString_def yearString_def YearFromTime_def MonthFromTime_def
  DateFromTime_def marchMonth_def dayOfMarchYear_def yearOfQuad_def dayOfQuad_def quadOfCentury_def
  dayOfCentury_def centuryOfEra_def era_def dayOfEra_def Day_def msPerDay_def HourFromTime_def MinFromTime_def
  SecFromTime_def msFromTime_def pad_def padStart_def decimal.simps digitChar_def

text \<open>
  C7, as the code has it. For every instant whose UTC year lies in 0 .. 9999 the generated
  id has the fixed shape \<open>YYYY-MM-DDTHH-mm-ssZ\<close>: the UTC fields at second precision, the
  milliseconds dropped, a hyphen where the ISO form has a colon, so no colon at all.
\<close>

theorem generateBackupTimestamp_format:
  assumes "0 \<le> YearFromTime now" and "YearFromTime now \<le> 9999"
  shows "generateBackupTimestamp now =
           pad 4 (nat (YearFromTime now)) @ ''-'' @ pad 2 (MonthFromTime now) @ ''-''
           @ pad 2 (DateFromTime now) @ ''T'' @ pad 2 (HourFromTime now) @ ''-''
           @ pad 2 (MinFromTime now) @ ''-'' @ pad 2 (SecFromTime now) @ ''Z''
         \<and> isBackupId (generateBackupTimestamp now)
         \<and> CHR '':'' \<notin> set (generateBackupTimestamp now)"
proof -
  have eq: "generateBackupTimestamp now =
           pad 4 (nat (YearFromTime now)) @ ''-'' @ pad 2 (MonthFromTime now) @ ''-''
           @ pad 2 (DateFromTime now) @ ''T'' @ pad 2 (HourFromTime now) @ ''-''
           @ pad 2 (MinFromTime now) @ ''-'' @ pad 2 (SecFromTime now) @ ''Z''"
    using assms by (simp add: generateBackupTimestamp_fields yearString_def)
  have y: "hasShape ''dddd'' (pad 4 (nat (YearFromTime now)))"
    using assms by (intro hasShape_pad4) simp
  have mo: "hasShape ''dd'' (pad 2 (MonthFromTime now))"
    using MonthFromTime_bounds [of now] by (intro hasShape_pad2) simp
  have da: "hasShape ''dd'' (pad 2 (DateFromTime now))"
    using DateFromTime_bounds [of now] by (intro hasShape_pad2) simp
  have ho: "hasShape ''dd'' (pad 2 (HourFromTime now))"
    using time_bounds(1) [of now] by (intro hasShape_pad2) simp
  have mi: "hasShape ''dd'' (pad 2 (MinFromTime now))"
    using time_bounds(2) [of now] by (intro hasShape_pad2) simp
  have se: "hasShape ''dd'' (pad 2 (SecFromTime now))"
    using time_bounds(3) [of now] by (intro hasShape_pad2) simp
  have "hasShape (''dddd'' @ ''-'' @ ''dd'' @ ''-'' @ ''dd'' @ ''T'' @ ''dd'' @ ''-'' @ ''dd''
                   @ ''-'' @ ''dd'' @ ''Z'')
          (pad 4 (nat (YearFromTime now)) @ ''-'' @ pad 2 (MonthFromTime now) @ ''-''
           @ pad 2 (DateFromTime now) @ ''T'' @ pad 2 (HourFromTime now) @ ''-''
           @ pad 2 (MinFromTime now) @ ''-'' @ pad 2 (SecFromTime now) @ ''Z'')"
    by (intro hasShape_appendI y mo da ho mi se) simp_all
  then have shape: "isBackupId (generateBackupTimestamp now)"
    by (simp add: isBackupId_def eq)
  have nocolon: "CHR '':'' \<notin> set (generateBackupTimestamp now)"
    unfolding eq by (simp add: pad_no_colon)
  from eq shape nocolon show ?thesis by simp
qed

theorem generateBackupTimestamp_format_witness:
  "0 \<le> YearFromTime 1764917971153 \<and> YearFromTime 1764917971153 \<le> 9999
   \<and> generateBackupTimestamp 1764917971153 = ''2025-12-05T06-59-31Z''
   \<and> isBackupId (generateBackupTimestamp 1764917971153)
   \<and> CHR '':'' \<notin> set (generateBackupTimestamp 1764917971153)"
proof -
  have y: "YearFromTime 1764917971153 = 2025"
    by (simp add: ts_eval)
  have v: "generateBackupTimestamp 1764917971153 = ''2025-12-05T06-59-31Z''"
    by (simp add: ts_eval)
  have h1: "0 \<le> YearFromTime 1764917971153" and h2: "YearFromTime 1764917971153 \<le> 9999"
    by (simp_all add: y)
  from generateBackupTimestamp_format [OF h1 h2]
  have "isBackupId (generateBackupTimestamp 1764917971153)"
    and "CHR '':'' \<notin> set (generateBackupTimestamp 1764917971153)"
    by blast+
  with h1 h2 v show ?thesis by simp
qed

text \<open>
  The instant 10000-01-01T00:00:00.000Z, which a \<open>Date\<close> can hold: \<open>toISOString\<close> writes
  its year as \<open>+010000\<close>, and the id does not have the fixed shape.
\<close>

theorem generateBackupTimestamp_year_10000:
  "generateBackupTimestamp 253402300800000 = ''+010000-01-01T00-00-00Z''
   \<and> \<not> isBackupId (generateBackupTimestamp 253402300800000)"
proof -
  have v: "generateBackupTimestamp 253402300800000 = ''+010000-01-01T00-00-00Z''"
    by (simp add: ts_eval)
  show ?thesis
    unfolding v by (simp add: isBackupId_def isDigit_def)
qed

section \<open>Listing backups\<close>

lemma set_insertBy: "set (insertBy compareFn x ys) = insert x (set ys)"
  by (induction ys) auto

lemma set_sortBy: "set (sortBy compareFn xs) = set xs"
  by (induction xs) (simp_all add: sortBy_def set_insertBy)

lemma length_insertBy: "length (insertBy compareFn x ys) = Suc (length ys)"
  by (induction ys) auto

lemma length_sortBy: "length (sortBy compareFn xs) = length xs"
  by (induction xs) (simp_all add: sortBy_def length_insertBy)

lemma sorted_insertBy:
  fixes key :: "'a \<Rightarrow> 'k::linorder"
  assumes "sorted_wrt (\<lambda>a b. key b \<le> key a) ys"
    and "\<forall>y \<in> set ys. (compareFn x y \<le> 0) = (key y \<le> key x)"
  shows "sorted_wrt (\<lambda>a b. key b \<le> key a) (insertBy compareFn x ys)"
  using assms
proof (induction ys)
  case Nil
  then show ?case by simp
next
  case (Cons y ys)
  show ?case
  proof (cases "compareFn x y \<le> 0")
    case True
    with Cons.prems have "key y \<le> key x" by simp
    moreover from Cons.prems have "\<forall>z \<in> set ys. key z \<le> key y" by simp
    ultimately have "\<forall>z \<in> set (y # ys). key z \<le> key x" by auto
    with True Cons.prems show ?thesis by simp
  next
    case False
    with Cons.prems have "key x \<le> key y" by auto
    with False Cons show ?thesis by (auto simp: set_insertBy)
  qed
qed

lemma sorted_sortBy:
  fixes key :: "'a \<Rightarrow> 'k::linorder"
  assumes "\<forall>x \<in> set xs. \<forall>y \<in> set xs. (compareFn x y \<le> 0) = (key y \<le> key x)"
  shows "sorted_wrt (\<lambda>a b. key b \<le> key a) (sortBy compareFn xs)"
  using assms
proof (induction xs)
  case Nil
  then show ?case by (simp add: sortBy_def)
next
  case (Cons x xs)
  then have "sorted_wrt (\<lambda>a b. key b \<le> key a) (sortBy compareFn xs)" by simp
  moreover from Cons.prems
  have "\<forall>y \<in> set (sortBy compareFn xs). (compareFn x y \<le> 0) = (key y \<le> key x)"
    by (simp add: set_sortBy)
  ultimately have "sorted_wrt (\<lambda>a b. key b \<le> key a) (insertBy compareFn x (sortBy compareFn xs))"
    by (rule sorted_insertBy)
  then show ?case by (simp add: sortBy_def)
qed

lemma collectBackups_shape:
  "b \<in> set (collectBackups dir projName' entries) \<Longrightarrow>
   b = \<lparr>timestamp = timestamp b, backupPath = dir @ [timestamp b], projectName = projName'\<rparr>"
  by (induction entries) (auto split: if_splits)

lemma collectBackups_names:
  "map timestamp (collectBackups dir projName' entries)
   = map entName (filter isDirectory entries)"
  by (induction entries) auto

lemma readdir_Dir:
  "resolve fs dir = Inr (Dir es) \<Longrightarrow>
   readdir fs dir = Inr (map (\<lambda>(n, c). Dirent n (kindOf c)) es)"
  by (simp add: readdir_def)

lemma entries_names: "map entName (map (\<lambda>(n, c). Dirent n (kindOf c)) es) = map fst es"
  by (induction es) auto

lemma directory_names:
  "map entName (filter isDirectory (map (\<lambda>(n, c). Dirent n (kindOf c)) es))
   = map fst (filter (\<lambda>(n, c). kindOf c = KDirectory) es)"
  by (induction es) (auto simp: isDirectory_def)

lemma map_insertBy:
  "map f (insertBy (\<lambda>a b. compareFn (f a) (f b)) x ys) = insertBy compareFn (f x) (map f ys)"
  by (induction ys) auto

lemma map_sortBy:
  "map f (sortBy (\<lambda>a b. compareFn (f a) (f b)) xs) = sortBy compareFn (map f xs)"
  by (induction xs) (simp_all add: sortBy_def map_insertBy)

lemma count_list_insertBy:
  "count_list (insertBy compareFn x ys) y = count_list (x # ys) y"
  by (induction ys) auto

lemma count_list_sortBy: "count_list (sortBy compareFn xs) y = count_list xs y"
  by (induction xs) (simp_all add: sortBy_def count_list_insertBy)

text \<open>
  C6, as the code has it. For a local target, \<open>listBackups\<close> returns one record for each
  subdirectory of the project's backup directory, its name as the id. The ids are in
  non-increasing lexicographic order (newest first) whenever the collation of
  \<open>localeCompare\<close> orders the ids found as their code units do, which it does for ids of
  the timestamp shape. When nothing exists at the path of the project's backup directory
  (\<open>ENOENT\<close>) the result is the empty list, not an error; any other failure to read the
  directory, something other than a directory in its place among them (\<open>ENOTDIR\<close>), is the
  error \<open>Failed to list backups\<close>.
\<close>

theorem listBackups_newest_first:
  "(resolve fs (projectBackupDir pf tp projName' configPath) = Inl ENOENT
      \<longrightarrow> listBackups pf fs (Local n tp) projName' configPath = ([], Inr []))
   \<and> (resolve fs (projectBackupDir pf tp projName' configPath) = Inr nd
        \<and> kindOf nd \<noteq> KDirectory
      \<longrightarrow> listBackups pf fs (Local n tp) projName' configPath
            = ([], Inl (FailedToListBackups ENOTDIR)))
   \<and> (resolve fs (projectBackupDir pf tp projName' configPath) = Inl e \<and> e \<noteq> ENOENT
      \<longrightarrow> listBackups pf fs (Local n tp) projName' configPath
            = ([], Inl (FailedToListBackups e)))
   \<and> (resolve fs (projectBackupDir pf tp projName' configPath) = Inr (Dir es)
      \<longrightarrow> (\<exists>backups.
             listBackups pf fs (Local n tp) projName' configPath = ([], Inr backups)
             \<and> (\<forall>x. count_list (map timestamp backups) x
                      = count_list (map fst (filter (\<lambda>(n, c). kindOf c = KDirectory) es)) x)
             \<and> (\<forall>b \<in> set backups.
                    backupPath b = projectBackupDir pf tp projName' configPath @ [timestamp b]
                    \<and> projectName b = projName')))
   \<and> (listBackups pf fs (Local n tp) projName' configPath = (w, Inr backups)
      \<and> (\<forall>a \<in> set backups. \<forall>b \<in> set backups.
            (localeCompare pf (timestamp a) (timestamp b) \<le> 0) = (timestamp a \<le> timestamp b))
      \<longrightarrow> sorted_wrt (\<lambda>a b. timestamp b \<le> timestamp a) backups)"
proof (intro conjI impI)
  let ?dir = "projectBackupDir pf tp projName' configPath"
  let ?cmp = "\<lambda>a b. localeCompare pf (timestamp b) (timestamp a)"
  {
    assume "resolve fs ?dir = Inl ENOENT"
    then show "listBackups pf fs (Local n tp) projName' configPath = ([], Inr [])"
      by (simp add: listBackups_def readdir_def)
  }
  {
    assume "resolve fs ?dir = Inr nd \<and> kindOf nd \<noteq> KDirectory"
    then show "listBackups pf fs (Local n tp) projName' configPath
               = ([], Inl (FailedToListBackups ENOTDIR))"
      by (cases nd) (simp_all add: listBackups_def readdir_def)
  }
  {
    assume "resolve fs ?dir = Inl e \<and> e \<noteq> ENOENT"
    then show "listBackups pf fs (Local n tp) projName' configPath
               = ([], Inl (FailedToListBackups e))"
      by (simp add: listBackups_def readdir_def)
  }
  {
    assume d: "resolve fs ?dir = Inr (Dir es)"
    let ?entries = "map (\<lambda>(n, c). Dirent n (kindOf c)) es"
    let ?C = "collectBackups ?dir projName' ?entries"
    let ?bs = "sortBy ?cmp ?C"
    have l: "listBackups pf fs (Local n tp) projName' configPath = ([], Inr ?bs)"
      by (simp add: listBackups_def readdir_Dir [OF d])
    have "map timestamp ?bs = sortBy (\<lambda>a b. localeCompare pf b a) (map timestamp ?C)"
      by (rule map_sortBy)
    then have ids: "count_list (map timestamp ?bs) x
          = count_list (map fst (filter (\<lambda>(n, c). kindOf c = KDirectory) es)) x" for x
      by (simp add: count_list_sortBy collectBackups_names directory_names)
    have sh: "backupPath b = ?dir @ [timestamp b] \<and> projectName b = projName'"
      if "b \<in> set ?bs" for b
    proof -
      from that have "b \<in> set ?C" by (simp add: set_sortBy)
      from collectBackups_shape [OF this] show ?thesis
        by (metis BackupInfo.select_convs(2) BackupInfo.select_convs(3))
    qed
    from l ids sh
    show "\<exists>backups.
             listBackups pf fs (Local n tp) projName' configPath = ([], Inr backups)
             \<and> (\<forall>x. count_list (map timestamp backups) x
                      = count_list (map fst (filter (\<lambda>(n, c). kindOf c = KDirectory) es)) x)
             \<and> (\<forall>b \<in> set backups.
                    backupPath b = ?dir @ [timestamp b] \<and> projectName b = projName')"
      by blast
  }
  {
    assume h: "listBackups pf fs (Local n tp) projName' configPath = (w, Inr backups)
      \<and> (\<forall>a \<in> set backups. \<forall>b \<in> set backups.
            (localeCompare pf (timestamp a) (timestamp b) \<le> 0) = (timestamp a \<le> timestamp b))"
    show "sorted_wrt (\<lambda>a b. timestamp b \<le> timestamp a) backups"
    proof (cases "readdir fs ?dir")
      case (Inl e)
      with h have "backups = []" by (auto simp: listBackups_def split: if_splits)
      then show ?thesis by simp
    next
      case (Inr entries)
      with h have b: "backups = sortBy ?cmp (collectBackups ?dir projName' entries)"
        by (simp add: listBackups_def)
      have "\<forall>x \<in> set (collectBackups ?dir projName' entries).
            \<forall>y \<in> set (collectBackups ?dir projName' entries).
              (?cmp x y \<le> 0) = (timestamp y \<le> timestamp x)"
        using h by (simp add: b set_sortBy)
      then show ?thesis unfolding b by (rule sorted_sortBy)
    qed
  }
qed

theorem listBackups_newest_first_witness:
  "resolve fsExample (projectBackupDir pfExample (Absolute [''backups'']) ''web'' None) = Inl ENOENT
   \<and> listBackups pfExample fsExample (Local ''disk'' (Absolute [''backups''])) ''web'' None = ([], Inr [])
   \<and> resolve fsExample (projectBackupDir pfExample (Absolute [''backups'', ''app'']) ''notes.txt'' None)
      = Inr (File ''n'')
   \<and> listBackups pfExample fsExample (Local ''disk'' (Absolute [''backups'', ''app''])) ''notes.txt'' None
      = ([], Inl (FailedToListBackups ENOTDIR))
   \<and> resolve fsExample (projectBackupDir pfExample (Absolute [''project'', ''a.txt'']) ''web'' None)
      = Inl ENOTDIR
   \<and> listBackups pfExample fsExample (Local ''disk'' (Absolute [''project'', ''a.txt''])) ''web'' None
      = ([], Inl (FailedToListBackups ENOTDIR))
   \<and> resolve fsExample (projectBackupDir pfExample (Absolute [''backups'']) ''app'' None)
      = Inr (Dir [(''2025-01-15T10-00-00Z'', Dir [(''a.txt'', File ''aa'')]),
                  (''2025-01-15T12-00-00Z'', Dir []),
                  (''2025-01-15T11-00-00Z'', Dir []),
                  (''notes.txt'', File ''n'')])
   \<and> listBackups pfExample fsExample (Local ''disk'' (Absolute [''backups''])) ''app'' None
      = ([], Inr [\<lparr>timestamp = ''2025-01-15T12-00-00Z'',
                   backupPath = [''backups'', ''app'', ''2025-01-15T12-00-00Z''],
                   projectName = ''app''\<rparr>,
                  \<lparr>timestamp = ''2025-01-15T11-00-00Z'',
                   backupPath = [''backups'', ''app'', ''2025-01-15T11-00-00Z''],
                   projectName = ''app''\<rparr>,
                  \<lparr>timestamp = ''2025-01-15T10-00-00Z'',
                   backupPath = [''backups'', ''app'', ''2025-01-15T10-00-00Z''],
                   projectName = ''app''\<rparr>])
   \<and> count_list
        (map timestamp
          [\<lparr>timestamp = ''2025-01-15T12-00-00Z'',
                   backupPath = [''backups'', ''app'', ''2025-01-15T12-00-00Z''],
                   projectName = ''app''\<rparr>,
                  \<lparr>timestamp = ''2025-01-15T11-00-00Z'',
                   backupPath = [''backups'', ''app'', ''2025-01-15T11-00-00Z''],
                   projectName = ''app''\<rparr>,
                  \<lparr>timestamp = ''2025-01-15T10-00-00Z'',
                   backupPath = [''backups'', ''app'', ''2025-01-15T10-00-00Z''],
                   projectName = ''app''\<rparr>]) ''notes.txt'' = 0
   \<and> sorted_wrt (\<lambda>a b. timestamp b \<le> timestamp a)
        [\<lparr>timestamp = ''2025-01-15T12-00-00Z'',
                   backupPath = [''backups'', ''app'', ''2025-01-15T12-00-00Z''],
                   projectName = ''app''\<rparr>,
                  \<lparr>timestamp = ''2025-01-15T11-00-00Z'',
                   backupPath = [''backups'', ''app'', ''2025-01-15T11-00-00Z''],
                   projectName = ''app''\<rparr>,
                  \<lparr>timestamp = ''2025-01-15T10-00-00Z'',
                   backupPath = [''backups'', ''app'', ''2025-01-15T10-00-00Z''],
                   projectName = ''app''\<rparr>]"
proof -
  let ?es = "[(''2025-01-15T10-00-00Z'', Dir [(''a.txt'', File ''aa'')]),
              (''2025-01-15T12-00-00Z'', Dir []),
              (''2025-01-15T11-00-00Z'', Dir []),
              (''notes.txt'', File ''n'')]"
  let ?bs = "[\<lparr>timestamp = ''2025-01-15T12-00-00Z'',
                   backupPath = [''backups'', ''app'', ''2025-01-15T12-00-00Z''],
                   projectName = ''app''\<rparr>,
                  \<lparr>timestamp = ''2025-01-15T11-00-00Z'',
                   backupPath = [''backups'', ''app'', ''2025-01-15T11-00-00Z''],
                   projectName = ''app''\<rparr>,
                  \<lparr>timestamp = ''2025-01-15T10-00-00Z'',
                   backupPath = [''backups'', ''app'', ''2025-01-15T10-00-00Z''],
                   projectName = ''app''\<rparr>]"
  have h1: "resolve fsExample (projectBackupDir pfExample (Absolute [''backups'']) ''web'' None)
            = Inl ENOENT"
    by (simp add: resolve_def projectBackupDir_def pathJoin_def pathLength_def PATH_MAX_numeral
          fsExample_def)
  have h2: "resolve fsExample
              (projectBackupDir pfExample (Absolute [''backups'', ''app'']) ''notes.txt'' None)
            = Inr (File ''n'') \<and> kindOf (File ''n'') \<noteq> KDirectory"
    by (simp add: resolve_def projectBackupDir_def pathJoin_def pathLength_def PATH_MAX_numeral
          fsExample_def)
  have h3: "resolve fsExample
              (projectBackupDir pfExample (Absolute [''project'', ''a.txt'']) ''web'' None)
            = Inl ENOTDIR \<and> ENOTDIR \<noteq> ENOENT"
    by (simp add: resolve_def projectBackupDir_def pathJoin_def pathLength_def PATH_MAX_numeral
          fsExample_def)
  have h4: "resolve fsExample (projectBackupDir pfExample (Absolute [''backups'']) ''app'' None)
            = Inr (Dir ?es)"
    by (simp add: resolve_def projectBackupDir_def pathJoin_def pathLength_def PATH_MAX_numeral
          fsExample_def)
  have h5: "listBackups pfExample fsExample (Local ''disk'' (Absolute [''backups''])) ''app'' None
            = ([], Inr ?bs)"
    by (simp add: listBackups_def projectBackupDir_def pathJoin_def readdir_def resolve_def
          pathLength_def PATH_MAX_numeral fsExample_def pfExample_def codeUnitCompare_def
          sortBy_def isDirectory_def)
  have h6: "\<forall>a \<in> set ?bs. \<forall>b \<in> set ?bs.
            (localeCompare pfExample (timestamp a) (timestamp b) \<le> 0) = (timestamp a \<le> timestamp b)"
    by (simp add: pfExample_def codeUnitCompare_def)
  note t1 = listBackups_newest_first
    [of fsExample pfExample "Absolute [''backups'']" "''web''" None "''disk''"]
  from t1 h1
  have r1: "listBackups pfExample fsExample (Local ''disk'' (Absolute [''backups''])) ''web'' None
            = ([], Inr [])"
    by blast
  note t2 = listBackups_newest_first
    [of fsExample pfExample "Absolute [''backups'', ''app'']" "''notes.txt''" None "''disk''"
      "File ''n''"]
  from t2 h2
  have r2: "listBackups pfExample fsExample (Local ''disk'' (Absolute [''backups'', ''app'']))
              ''notes.txt'' None = ([], Inl (FailedToListBackups ENOTDIR))"
    by blast
  note t3 = listBackups_newest_first
    [of fsExample pfExample "Absolute [''project'', ''a.txt'']" "''web''" None "''disk''" _ ENOTDIR]
  from t3 h3
  have r3: "listBackups pfExample fsExample (Local ''disk'' (Absolute [''project'', ''a.txt'']))
              ''web'' None = ([], Inl (FailedToListBackups ENOTDIR))"
    by blast
  note t4 = listBackups_newest_first
    [of fsExample pfExample "Absolute [''backups'']" "''app''" None "''disk''" _ _ ?es "[]" ?bs]
  from t4 h4 obtain backups where
    l: "listBackups pfExample fsExample (Local ''disk'' (Absolute [''backups''])) ''app'' None
        = ([], Inr backups)"
    and c: "\<forall>x. count_list (map timestamp backups) x
              = count_list (map fst (filter (\<lambda>(n, c). kindOf c = KDirectory) ?es)) x"
    by blast
  from l h5 have "backups = ?bs" by simp
  with c have r4: "count_list (map timestamp ?bs) ''notes.txt''
              = count_list (map fst (filter (\<lambda>(n, c). kindOf c = KDirectory) ?es)) ''notes.txt''"
    by blast
  have r4': "count_list (map timestamp ?bs) ''notes.txt'' = 0"
    unfolding r4 by simp
  from t4 h5 h6
  have r5: "sorted_wrt (\<lambda>a b. timestamp b \<le> timestamp a) ?bs"
    by blast
  from h1 r1 h2 r2 h3 r3 h4 h5 r4' r5 show ?thesis by blast
qed

text \<open>
  The directories \<open>B\<close>, \<open>a\<close> and \<open>c\<close> under a collation that disregards case: they are
  listed as \<open>c\<close>, \<open>B\<close>, \<open>a\<close>, and \<open>B\<close> before \<open>a\<close> is increasing in the order of the
  code units. And a regular file where the project's backup directory should be: the
  listing fails.
\<close>

theorem listBackups_locale_order:
  "listBackups pfLocale fsLetters (Local ''disk'' (Absolute [''backups''])) ''app'' None
     = ([], Inr [\<lparr>timestamp = ''c'', backupPath = [''backups'', ''app'', ''c''],
                  projectName = ''app''\<rparr>,
                 \<lparr>timestamp = ''B'', backupPath = [''backups'', ''app'', ''B''],
                  projectName = ''app''\<rparr>,
                 \<lparr>timestamp = ''a'', backupPath = [''backups'', ''app'', ''a''],
                  projectName = ''app''\<rparr>])
   \<and> \<not> ''a'' \<le> ''B''
   \<and> listBackups pfExample fsExample (Local ''disk'' (Absolute [''backups'', ''app'']))
        ''notes.txt'' None = ([], Inl (FailedToListBackups ENOTDIR))"
  by (simp add: listBackups_def projectBackupDir_def pathJoin_def readdir_def resolve_def
        pathLength_def PATH_MAX_numeral fsLetters_def pfLocale_def letterCompare_def foldCase_def
        fsExample_def sortBy_def isDirectory_def)

section \<open>Retention\<close>

lemma map_of_update_same: "map_of (AList.update k v al) k = Some v"
  by (simp add: update_conv')

lemma rmWalk_child:
  "walk n p = Inr (Dir es) \<Longrightarrow>
   \<exists>n'. rmWalk n (p @ [x]) = Inr n' \<and> walk n' p = Inr (Dir (AList.delete x es))"
proof (induction p arbitrary: n)
  case Nil
  then show ?case by simp
next
  case (Cons a p)
  from Cons.prems obtain es0 c where n: "n = Dir es0" and a: "map_of es0 a = Some c"
    and c: "walk c p = Inr (Dir es)"
    by (cases n) (auto split: option.splits)
  from Cons.IH [OF c] obtain c' where c': "rmWalk c (p @ [x]) = Inr c'"
    and w: "walk c' p = Inr (Dir (AList.delete x es))"
    by blast
  obtain y q where yq: "p @ [x] = y # q" by (cases "p @ [x]") auto
  have "rmWalk n ((a # p) @ [x]) = Inr (Dir (AList.update a c' es0))"
    using n a c' yq by simp
  moreover have "walk (Dir (AList.update a c' es0)) (a # p) = Inr (Dir (AList.delete x es))"
    using w by (simp add: map_of_update_same)
  ultimately show ?case by blast
qed

lemma rm_child:
  assumes "resolve fs dir = Inr (Dir es)" and "pathLength (dir @ [x]) < PATH_MAX"
  shows "\<exists>fs'. rm fs (dir @ [x]) = Inr fs' \<and> resolve fs' dir = Inr (Dir (AList.delete x es))"
proof -
  from assms(2) have short: "pathLength dir < PATH_MAX" by (simp add: pathLength_snoc)
  with assms(1) have "walk fs dir = Inr (Dir es)" by (simp add: resolve_def)
  from rmWalk_child [OF this, of x] assms(2) short show ?thesis
    by (auto simp: rm_def resolve_def)
qed

lemma removeExcess_dry: "removeExcess fs bs acc True = (fs, Inr (acc @ map backupPath bs))"
  by (induction bs arbitrary: acc) simp_all

lemma removeExcess_real:
  assumes "resolve fs dir = Inr (Dir es)"
    and "\<forall>b \<in> set bs. backupPath b = dir @ [timestamp b] \<and> pathLength (backupPath b) < PATH_MAX"
  shows "\<exists>fs'. removeExcess fs bs acc False = (fs', Inr (acc @ map backupPath bs))
           \<and> resolve fs' dir = Inr (Dir (filter (\<lambda>(k, v). k \<notin> timestamp ` set bs) es))"
  using assms
proof (induction bs arbitrary: fs es acc)
  case Nil
  then show ?case by simp
next
  case (Cons b bs)
  from Cons.prems have bp: "backupPath b = dir @ [timestamp b]"
    and len: "pathLength (dir @ [timestamp b]) < PATH_MAX" by auto
  from rm_child [OF Cons.prems(1) len] obtain fs1 where
    r: "rm fs (dir @ [timestamp b]) = Inr fs1"
    and d: "resolve fs1 dir = Inr (Dir (AList.delete (timestamp b) es))" by blast
  from Cons.prems(2) have rest: "\<forall>b \<in> set bs. backupPath b = dir @ [timestamp b]
      \<and> pathLength (backupPath b) < PATH_MAX" by auto
  from Cons.IH [OF d rest, of "acc @ [backupPath b]"] obtain fs' where
    e: "removeExcess fs1 bs (acc @ [backupPath b]) False
          = (fs', Inr ((acc @ [backupPath b]) @ map backupPath bs))"
    and f: "resolve fs' dir
          = Inr (Dir (filter (\<lambda>(k, v). k \<notin> timestamp ` set bs) (AList.delete (timestamp b) es)))"
    by blast
  have "filter (\<lambda>(k, v). k \<notin> timestamp ` set bs) (AList.delete (timestamp b) es)
        = filter (\<lambda>(k, v). k \<notin> timestamp ` set (b # bs)) es"
    by (induction es) (auto simp: AList.delete_eq)
  with e f r bp show ?case by (simp add: removeDirectory_def)
qed

lemma collectBackups_filter:
  "collectBackups dir projName' (filter (\<lambda>e. entName e \<notin> R) entries)
   = filter (\<lambda>b. timestamp b \<notin> R) (collectBackups dir projName' entries)"
  by (induction entries) auto

lemma distinct_map_filter_names:
  "distinct (map entName entries) \<Longrightarrow> distinct (map entName (filter P entries))"
  by (induction entries) auto

lemma distinct_insertBy:
  "distinct (map key (insertBy compareFn x ys)) = (key x \<notin> key ` set ys \<and> distinct (map key ys))"
  by (induction ys) (auto simp: set_insertBy)

lemma distinct_sortBy:
  "distinct (map key (sortBy compareFn xs)) = distinct (map key xs)"
  by (induction xs) (simp_all add: sortBy_def distinct_insertBy set_sortBy [unfolded sortBy_def])

lemma descending_unique:
  fixes key :: "'a \<Rightarrow> 'k::linorder"
  assumes "sorted_wrt (\<lambda>a b. key b \<le> key a) xs" and "sorted_wrt (\<lambda>a b. key b \<le> key a) ys"
    and "distinct (map key xs)" and "distinct (map key ys)" and "set xs = set ys"
  shows "xs = ys"
proof -
  have sx: "sorted (rev (map key xs))" and sy: "sorted (rev (map key ys))"
    using assms(1,2) by (simp_all add: sorted_wrt_rev sorted_wrt_map)
  have "rev (map key xs) = rev (map key ys)"
    using sx sy assms(3,4,5) by (intro sorted_distinct_set_unique) simp_all
  then have k: "map key xs = map key ys" by simp
  have inj: "inj_on key (set xs \<union> set ys)"
    using assms(3,5) by (simp add: distinct_map)
  from k inj show ?thesis by (simp add: inj_on_map_eq_map)
qed

lemma entries_filter:
  "map (\<lambda>(n, c). Dirent n (kindOf c)) (filter (\<lambda>(k, v). k \<notin> R) es)
   = filter (\<lambda>e. entName e \<notin> R) (map (\<lambda>(n, c). Dirent n (kindOf c)) es)"
  by (induction es) auto

lemma take_drop_sets:
  assumes "distinct (map key xs)"
  shows "set (take k xs) = {b \<in> set xs. key b \<notin> key ` set (drop k xs)}"
proof -
  have "distinct (map key (take k xs @ drop k xs))" using assms by simp
  then have disj: "key ` set (take k xs) \<inter> key ` set (drop k xs) = {}"
    by (simp only: map_append distinct_append set_map)
  have "set xs = set (take k xs) \<union> set (drop k xs)"
    by (metis append_take_drop_id set_append)
  with disj show ?thesis by auto
qed

text \<open>
  C4, as the code has it. For a local target whose project directory lists \<open>n\<close> backups
  and a maximum \<open>m \<ge> 0\<close>, provided that the collation of \<open>localeCompare\<close> orders the ids
  found as their code units do, that the entries of the directory have distinct names and
  that the paths of the backups are shorter than \<open>PATH_MAX\<close>: \<open>applyRetention\<close> reports the
  paths of the backups beyond the first \<open>m\<close> of the newest-first listing, \<open>n - m\<close> of them
  and none when \<open>m \<ge> n\<close>, whether or not it is simulating; each of them is at most as new
  as each backup kept; simulating leaves the file system as it is; otherwise the
  directories are deleted and the listing afterwards is exactly the \<open>m\<close> newest.
\<close>

theorem applyRetention_exact:
  assumes dir: "resolve fs (projectBackupDir pf tp projName' configPath) = Inr (Dir es)"
    and dist: "distinct (map fst es)"
    and list: "listBackups pf fs (Local n tp) projName' configPath = (w, Inr backups)"
    and max: "0 \<le> maxBackups"
    and len: "\<forall>b \<in> set backups. pathLength (backupPath b) < PATH_MAX"
    and coll: "\<forall>a \<in> set backups. \<forall>b \<in> set backups.
                (localeCompare pf (timestamp a) (timestamp b) \<le> 0) = (timestamp a \<le> timestamp b)"
  shows "snd (snd (applyRetention pf fs (Local n tp) projName' maxBackups configPath dryRun))
           = Inr (map backupPath (drop (nat maxBackups) backups))
         \<and> length (drop (nat maxBackups) backups) = length backups - nat maxBackups
         \<and> (\<forall>x \<in> set (drop (nat maxBackups) backups).
              \<forall>y \<in> set (take (nat maxBackups) backups). timestamp x \<le> timestamp y)
         \<and> fst (applyRetention pf fs (Local n tp) projName' maxBackups configPath True) = fs
         \<and> listBackups pf
              (fst (applyRetention pf fs (Local n tp) projName' maxBackups configPath False))
              (Local n tp) projName' configPath
            = (w, Inr (take (nat maxBackups) backups))"
proof -
  let ?dir = "projectBackupDir pf tp projName' configPath"
  let ?cmp = "\<lambda>a b. localeCompare pf (timestamp b) (timestamp a)"
  let ?entries = "map (\<lambda>(n, c). Dirent n (kindOf c)) es"
  let ?C = "collectBackups ?dir projName' ?entries"
  let ?m = "nat maxBackups"
  let ?old = "drop ?m backups"
  let ?R = "timestamp ` set ?old"
  have rd: "readdir fs ?dir = Inr ?entries" using dir by (rule readdir_Dir)
  from list rd have w: "w = []" and backups: "backups = sortBy ?cmp ?C"
    by (simp_all add: listBackups_def)
  have setb: "set backups = set ?C" by (simp add: backups set_sortBy)
  have shape: "backupPath b = ?dir @ [timestamp b]" if "b \<in> set backups" for b
    using collectBackups_shape [of b ?dir projName' ?entries] that setb
    by (metis BackupInfo.select_convs(2))
  have sorted: "sorted_wrt (\<lambda>a b. timestamp b \<le> timestamp a) backups"
    unfolding backups using coll by (intro sorted_sortBy) (simp add: setb [symmetric] backups)
  have "distinct (map entName ?entries)"
    using dist by (simp only: entries_names)
  then have distC: "distinct (map timestamp ?C)"
    unfolding collectBackups_names by (rule distinct_map_filter_names)
  have distb: "distinct (map timestamp backups)"
    by (simp add: backups distinct_sortBy distC)
  have slice: "slice backups maxBackups = ?old" using max by (simp add: slice_def)
  have oldest: "\<forall>x \<in> set ?old. \<forall>y \<in> set (take ?m backups). timestamp x \<le> timestamp y"
  proof -
    have "sorted_wrt (\<lambda>a b. timestamp b \<le> timestamp a) (take ?m backups @ ?old)"
      using sorted by simp
    then show ?thesis by (simp only: sorted_wrt_append) blast
  qed
  have old_ok: "\<forall>b \<in> set ?old. backupPath b = ?dir @ [timestamp b]
                  \<and> pathLength (backupPath b) < PATH_MAX"
    using shape len by (auto dest: in_set_dropD)
  show ?thesis
  proof (cases "int (length backups) > maxBackups")
    case False
    then have none: "?old = []" and all: "take ?m backups = backups" by simp_all
    have ar: "applyRetention pf fs (Local n tp) projName' maxBackups configPath d = (fs, w, Inr [])"
      for d using False list by (simp add: applyRetention_def)
    show ?thesis using none all ar list by simp
  next
    case True
    have ar: "applyRetention pf fs (Local n tp) projName' maxBackups configPath d
              = (case removeExcess fs ?old [] d of (fs', r) \<Rightarrow> (fs', w, r))" for d
      using True list slice by (simp add: applyRetention_def)
    have dry: "applyRetention pf fs (Local n tp) projName' maxBackups configPath True
               = (fs, w, Inr (map backupPath ?old))"
      by (simp add: ar removeExcess_dry)
    from removeExcess_real [OF dir old_ok, of "[]"] obtain fs' where
      re: "removeExcess fs ?old [] False = (fs', Inr (map backupPath ?old))"
      and dir': "resolve fs' ?dir = Inr (Dir (filter (\<lambda>(k, v). k \<notin> ?R) es))"
      by auto
    have real: "applyRetention pf fs (Local n tp) projName' maxBackups configPath False
               = (fs', w, Inr (map backupPath ?old))"
      by (simp add: ar re)
    have reported: "snd (snd (applyRetention pf fs (Local n tp) projName' maxBackups configPath dryRun))
           = Inr (map backupPath ?old)"
      using dry real by (cases dryRun) simp_all
    let ?kept = "sortBy ?cmp (filter (\<lambda>b. timestamp b \<notin> ?R) ?C)"
    have rd': "readdir fs' ?dir = Inr (filter (\<lambda>e. entName e \<notin> ?R) ?entries)"
      using readdir_Dir [OF dir'] by (simp only: entries_filter)
    have after: "listBackups pf fs' (Local n tp) projName' configPath = (w, Inr ?kept)"
      by (simp add: listBackups_def rd' w collectBackups_filter)
    have "?kept = take ?m backups"
    proof (rule descending_unique [where key = timestamp])
      show "sorted_wrt (\<lambda>a b. timestamp b \<le> timestamp a) ?kept"
        using coll by (intro sorted_sortBy) (simp add: setb)
      show "sorted_wrt (\<lambda>a b. timestamp b \<le> timestamp a) (take ?m backups)"
        using sorted by (rule sorted_wrt_take)
      show "distinct (map timestamp ?kept)"
        using distC by (simp add: distinct_sortBy distinct_map_filter)
      show "distinct (map timestamp (take ?m backups))"
        using distb by (simp add: take_map [symmetric])
      show "set ?kept = set (take ?m backups)"
        by (simp add: set_sortBy take_drop_sets [OF distb] setb)
    qed
    with after real have kept: "listBackups pf
              (fst (applyRetention pf fs (Local n tp) projName' maxBackups configPath False))
              (Local n tp) projName' configPath
            = (w, Inr (take ?m backups))"
      by simp
    from reported oldest dry kept show ?thesis by simp
  qed
qed

theorem applyRetention_exact_witness:
  "resolve fsExample (projectBackupDir pfExample (Absolute [''backups'']) ''app'' None)
     = Inr (Dir [(''2025-01-15T10-00-00Z'', Dir [(''a.txt'', File ''aa'')]),
                 (''2025-01-15T12-00-00Z'', Dir []),
                 (''2025-01-15T11-00-00Z'', Dir []),
                 (''notes.txt'', File ''n'')])
   \<and> snd (snd (applyRetention pfExample fsExample (Local ''disk'' (Absolute [''backups'']))
                  ''app'' 1 None True))
       = Inr [[''backups'', ''app'', ''2025-01-15T11-00-00Z''],
              [''backups'', ''app'', ''2025-01-15T10-00-00Z'']]
   \<and> snd (snd (applyRetention pfExample fsExample (Local ''disk'' (Absolute [''backups'']))
                  ''app'' 1 None False))
       = Inr [[''backups'', ''app'', ''2025-01-15T11-00-00Z''],
              [''backups'', ''app'', ''2025-01-15T10-00-00Z'']]
   \<and> fst (applyRetention pfExample fsExample (Local ''disk'' (Absolute [''backups'']))
             ''app'' 1 None True) = fsExample
   \<and> listBackups pfExample
        (fst (applyRetention pfExample fsExample (Local ''disk'' (Absolute [''backups'']))
                ''app'' 1 None False))
        (Local ''disk'' (Absolute [''backups''])) ''app'' None
       = ([], Inr [\<lparr>timestamp = ''2025-01-15T12-00-00Z'',
                    backupPath = [''backups'', ''app'', ''2025-01-15T12-00-00Z''],
                    projectName = ''app''\<rparr>])"
proof -
  let ?es = "[(''2025-01-15T10-00-00Z'', Dir [(''a.txt'', File ''aa'')]),
              (''2025-01-15T12-00-00Z'', Dir []),
              (''2025-01-15T11-00-00Z'', Dir []),
              (''notes.txt'', File ''n'')]"
  let ?bs = "[\<lparr>timestamp = ''2025-01-15T12-00-00Z'',
               backupPath = [''backups'', ''app'', ''2025-01-15T12-00-00Z''],
               projectName = ''app''\<rparr>,
              \<lparr>timestamp = ''2025-01-15T11-00-00Z'',
               backupPath = [''backups'', ''app'', ''2025-01-15T11-00-00Z''],
               projectName = ''app''\<rparr>,
              \<lparr>timestamp = ''2025-01-15T10-00-00Z'',
               backupPath = [''backups'', ''app'', ''2025-01-15T10-00-00Z''],
               projectName = ''app''\<rparr>]"
  have h1: "resolve fsExample (projectBackupDir pfExample (Absolute [''backups'']) ''app'' None)
            = Inr (Dir ?es)"
    by (simp add: resolve_def projectBackupDir_def pathJoin_def pathLength_def PATH_MAX_numeral
          fsExample_def)
  have h2: "distinct (map fst ?es)"
    by simp
  have h3: "listBackups pfExample fsExample (Local ''disk'' (Absolute [''backups''])) ''app'' None
            = ([], Inr ?bs)"
    by (simp add: listBackups_def projectBackupDir_def pathJoin_def readdir_def resolve_def pathLength_def
          PATH_MAX_numeral fsExample_def pfExample_def codeUnitCompare_def sortBy_def
          isDirectory_def)
  have h4: "(0::int) \<le> 1"
    by simp
  have h5: "\<forall>b \<in> set ?bs. pathLength (backupPath b) < PATH_MAX"
    by (simp add: pathLength_def PATH_MAX_numeral)
  have h6: "\<forall>a \<in> set ?bs. \<forall>b \<in> set ?bs.
            (localeCompare pfExample (timestamp a) (timestamp b) \<le> 0) = (timestamp a \<le> timestamp b)"
    by (simp add: pfExample_def codeUnitCompare_def)
  note t = applyRetention_exact [OF h1 h2 h3 h4 h5 h6]
  show ?thesis
    using h1 t [of True] t [of False] by simp
qed

text \<open>
  The directories \<open>B\<close>, \<open>a\<close> and \<open>c\<close> under a collation that disregards case, and a maximum
  of two: the backup removed is \<open>a\<close>, and \<open>B\<close>, the least id in the order of the code units,
  is kept.
\<close>

theorem applyRetention_locale_order:
  "applyRetention pfLocale fsLetters (Local ''disk'' (Absolute [''backups''])) ''app'' 2 None False
     = (Dir [(''backups'', Dir [(''app'', Dir [(''B'', Dir []), (''c'', Dir [])])])], [],
        Inr [[''backups'', ''app'', ''a'']])
   \<and> applyRetention pfLocale fsLetters (Local ''disk'' (Absolute [''backups''])) ''app'' 2 None True
     = (fsLetters, [], Inr [[''backups'', ''app'', ''a'']])
   \<and> ''B'' < ''a'' \<and> ''B'' < ''c''"
  by (simp add: applyRetention_def listBackups_def projectBackupDir_def pathJoin_def readdir_def
        resolve_def pathLength_def PATH_MAX_numeral fsLetters_def pfLocale_def letterCompare_def
        foldCase_def sortBy_def isDirectory_def slice_def removeDirectory_def rm_def)

section \<open>Simulated and real copies\<close>

lemma copy_induct [case_names Directory Nil Cons]:
  assumes D: "\<And>fs source destination stats.
      (\<And>entries. readdir fs source = Inr entries \<Longrightarrow> Q fs entries source destination stats)
      \<Longrightarrow> P fs source destination stats"
    and N: "\<And>fs source destination stats. Q fs [] source destination stats"
    and C: "\<And>fs entry rest source destination stats.
      (\<And>fs1 stats1. P fs1 (source @ [entName entry]) (destination @ [entName entry]) stats1)
      \<Longrightarrow> (\<And>fs1 stats1. Q fs1 rest source destination stats1)
      \<Longrightarrow> Q fs (entry # rest) source destination stats"
  shows "P fs source destination stats" and "Q fs entries source destination stats"
proof -
  have all: "\<forall>fs stats. Q fs entries source destination stats" for entries source destination
  proof (induction "PATH_MAX - pathLength source" arbitrary: source entries destination
      rule: less_induct)
    case less
    have sub: "P fs1 (source @ [n]) (destination @ [n]) stats1" for fs1 stats1 n
    proof (rule D)
      fix entries'
      assume "readdir fs1 (source @ [n]) = Inr entries'"
      then have "pathLength (source @ [n]) < PATH_MAX" by (rule readdir_short)
      then have "PATH_MAX - pathLength (source @ [n]) < PATH_MAX - pathLength source"
        by (simp add: pathLength_snoc)
      then have "\<forall>fs stats. Q fs entries' (source @ [n]) (destination @ [n]) stats"
        by (rule less)
      then show "Q fs1 entries' (source @ [n]) (destination @ [n]) stats1" by blast
    qed
    show ?case
    proof (induct entries)
      case Nil
      show ?case by (simp add: N)
    next
      case (Cons entry rest)
      show ?case
      proof (intro allI)
        fix fs stats
        show "Q fs (entry # rest) source destination stats"
        proof (rule C)
          show "P fs1 (source @ [entName entry]) (destination @ [entName entry]) stats1"
            for fs1 stats1 by (rule sub)
          show "Q fs1 rest source destination stats1" for fs1 stats1
            using Cons by blast
        qed
      qed
    qed
  qed
  show "Q fs entries source destination stats" using all by blast
  show "P fs source destination stats" by (rule D) (use all in blast)
qed
lemma dry_run_leaves_fs:
  shows "fst (copyDirectoryRecursive fs source destination root pats stats True) = fs
         \<and> (\<forall>st. snd (copyDirectoryRecursive fs source destination root pats stats True) = Inr st
               \<longrightarrow> directoriesCreated st = directoriesCreated stats
                   \<and> bytesCopied st = bytesCopied stats)"
    and "fst (copyEntries fs entries source destination root pats stats True) = fs
         \<and> (\<forall>st. snd (copyEntries fs entries source destination root pats stats True) = Inr st
               \<longrightarrow> directoriesCreated st = directoriesCreated stats
                   \<and> bytesCopied st = bytesCopied stats)"
proof -
  let ?P = "\<lambda>fs source destination stats.
      fst (copyDirectoryRecursive fs source destination root pats stats True) = fs
      \<and> (\<forall>st. snd (copyDirectoryRecursive fs source destination root pats stats True) = Inr st
            \<longrightarrow> directoriesCreated st = directoriesCreated stats
                \<and> bytesCopied st = bytesCopied stats)"
  let ?Q = "\<lambda>fs entries source destination stats.
      fst (copyEntries fs entries source destination root pats stats True) = fs
      \<and> (\<forall>st. snd (copyEntries fs entries source destination root pats stats True) = Inr st
            \<longrightarrow> directoriesCreated st = directoriesCreated stats
                \<and> bytesCopied st = bytesCopied stats)"
  have D: "?P fs source destination stats"
    if "\<And>entries. readdir fs source = Inr entries \<Longrightarrow> ?Q fs entries source destination stats"
    for fs source destination stats
    using that by (cases "readdir fs source") (simp_all add: copyDirectoryRecursive.simps)
  have N: "?Q fs [] source destination stats" for fs source destination stats
    by simp
  have C: "?Q fs (entry # rest) source destination stats"
    if IHP: "\<And>fs1 stats1. ?P fs1 (source @ [entName entry]) (destination @ [entName entry]) stats1"
      and IHQ: "\<And>fs1 stats1. ?Q fs1 rest source destination stats1"
    for fs entry rest source destination stats
  proof (cases "shouldExclude (relative root (source @ [entName entry])) pats")
    case (Inl e)
    then show ?thesis
      by (simp add: copyEntries_Cons_bind [of _ entry] copyEntry_error)
  next
    case (Inr b)
    show ?thesis
    proof (cases b)
      case True
      with Inr IHQ [of fs "stats\<lparr>skipped := skipped stats
              @ [relative root (source @ [entName entry])]\<rparr>"]
      show ?thesis
        by (simp add: copyEntries_Cons_bind [of _ entry] copyEntry_excluded)
    next
      case False
      with Inr have ne: "shouldExclude (relative root (source @ [entName entry])) pats = Inr False"
        by simp
      show ?thesis
      proof (cases "isDirectory entry")
        case True
        obtain fsa ra where sub: "copyDirectoryRecursive fs (source @ [entName entry])
            (destination @ [entName entry]) root pats stats True = (fsa, ra)"
          by (cases "copyDirectoryRecursive fs (source @ [entName entry])
            (destination @ [entName entry]) root pats stats True") auto
        from IHP [of fs stats] sub have fsa: "fsa = fs"
          and ra: "\<And>st. ra = Inr st \<Longrightarrow> directoriesCreated st = directoriesCreated stats
                \<and> bytesCopied st = bytesCopied stats"
          by simp_all
        show ?thesis
        proof (cases ra)
          case (Inl e)
          with ne True sub fsa show ?thesis
            by (simp add: copyEntries_Cons_bind [of _ entry] copyEntry_directory_dry)
        next
          case (Inr st1)
          with ne True sub fsa ra [of st1] IHQ [of fs st1] show ?thesis
            by (simp add: copyEntries_Cons_bind [of _ entry] copyEntry_directory_dry)
        qed
      next
        case notdir: False
        show ?thesis
        proof (cases "isFile entry")
          case True
          with ne notdir IHQ [of fs "stats\<lparr>filesCopied := filesCopied stats + 1\<rparr>"]
          show ?thesis
            by (simp add: copyEntries_Cons_bind [of _ entry] copyEntry_file_dry)
        next
          case False
          with ne notdir IHQ [of fs stats] show ?thesis
            by (simp add: copyEntries_Cons_bind [of _ entry] copyEntry_other)
        qed
      qed
    qed
  qed
  show "?P fs source destination stats"
    by (rule copy_induct(1) [of ?Q ?P, OF D N C])
  show "?Q fs entries source destination stats"
    by (rule copy_induct(2) [of ?Q ?P, OF D N C])
qed
lemma map_of_update_other: "k' \<noteq> k \<Longrightarrow> map_of (AList.update k v al) k' = map_of al k'"
  by (simp add: update_conv')

lemma walk_empty_dir: "p \<noteq> [] \<Longrightarrow> walk (Dir []) p = Inl ENOENT"
  by (cases p) simp_all

lemma mkdirWalk_frame:
  "mkdirWalk n w = Inr n' \<Longrightarrow> \<not> prefix w p \<Longrightarrow> \<not> prefix p w \<Longrightarrow> walk n' p = walk n p"
proof (induction n w arbitrary: n' p rule: mkdirWalk.induct)
  case (4 es x w)
  let ?c0 = "case map_of es x of None \<Rightarrow> Dir [] | Some c \<Rightarrow> c"
  from "4.prems"(1) obtain c' where c': "mkdirWalk ?c0 w = Inr c'"
    and n': "n' = Dir (AList.update x c' es)"
    by (auto split: sum.splits)
  from "4.prems"(3) obtain y q where p: "p = y # q" by (cases p) auto
  show ?case
  proof (cases "y = x")
    case False
    then show ?thesis by (simp add: p n' map_of_update_other)
  next
    case True
    with "4.prems"(2,3) p have a: "\<not> prefix w q" and b: "\<not> prefix q w" by simp_all
    from "4.IH" [OF c' a b] have w: "walk c' q = walk ?c0 q" .
    from b have "q \<noteq> []" by auto
    with w True show ?thesis
      by (simp add: p n' map_of_update_same walk_empty_dir split: option.split)
  qed
qed simp_all

lemma putFile_frame:
  "putFile n w c = Inr n' \<Longrightarrow> \<not> prefix w p \<Longrightarrow> \<not> prefix p w \<Longrightarrow> walk n' p = walk n p"
proof (induction n w c arbitrary: n' p rule: putFile.induct)
  case (4 es x w c)
  from "4.prems"(3) obtain y q where p: "p = y # q" by (cases p) auto
  show ?case
  proof (cases "map_of es x")
    case None
    with "4.prems"(1) have w: "w = []" and n': "n' = Dir (AList.update x (File c) es)"
      by (auto split: if_splits)
    from "4.prems"(2) w p have "y \<noteq> x" by auto
    then show ?thesis by (simp add: p n' map_of_update_other)
  next
    case (Some ch)
    with "4.prems"(1) obtain ch' where ch': "putFile ch w c = Inr ch'"
      and n': "n' = Dir (AList.update x ch' es)"
      by (auto split: sum.splits)
    show ?thesis
    proof (cases "y = x")
      case False
      then show ?thesis by (simp add: p n' map_of_update_other)
    next
      case True
      with "4.prems"(2,3) p have a: "\<not> prefix w q" and b: "\<not> prefix q w" by simp_all
      from "4.IH" [OF Some ch' a b] True Some show ?thesis
        by (simp add: p n' map_of_update_same)
    qed
  qed
qed simp_all

lemma frame_refl: "frame d fs fs"
  by (simp add: frame_def)

lemma frame_trans: "frame d fs fs1 \<Longrightarrow> frame d fs1 fs2 \<Longrightarrow> frame d fs fs2"
  by (simp add: frame_def)

lemma frame_child: "frame (d @ [n]) fs fs' \<Longrightarrow> frame d fs fs'"
  unfolding frame_def
proof (intro allI impI)
  fix p
  assume f: "\<forall>p. \<not> prefix (d @ [n]) p \<longrightarrow> \<not> prefix p (d @ [n]) \<longrightarrow> walk fs' p = walk fs p"
    and a: "\<not> prefix d p" and b: "\<not> prefix p d"
  from a have "\<not> prefix (d @ [n]) p" by (meson prefix_order.trans prefixI)
  moreover from a b have "\<not> prefix p (d @ [n])" by (auto simp: prefix_snoc)
  ultimately show "walk fs' p = walk fs p" using f by blast
qed

lemma mkdir_frame: "mkdir fs d = Inr fs' \<Longrightarrow> frame d fs fs'"
  by (auto simp: mkdir_def frame_def mkdirWalk_frame split: if_splits)

lemma copyFile_frame: "copyFile fs s d = Inr fs' \<Longrightarrow> frame d fs fs'"
  by (auto simp: copyFile_def frame_def putFile_frame split: if_splits sum.splits node.splits)

lemma agree_child: "agree s fs0 fs \<Longrightarrow> agree (s @ [n]) fs0 fs"
  by (simp add: agree_def)

lemma agree_readdir: "agree s fs0 fs \<Longrightarrow> readdir fs0 s = readdir fs s"
  unfolding agree_def readdir_def resolve_def by (metis append_Nil2)

lemma incomparable_append:
  "\<not> prefix s d \<Longrightarrow> \<not> prefix d s \<Longrightarrow> \<not> prefix (d @ a) (s @ b) \<and> \<not> prefix (s @ b) (d @ a)"
  by (metis prefix_order.trans prefixI prefix_same_cases)

lemma agree_frame:
  "agree s fs0 fs \<Longrightarrow> frame d fs fs' \<Longrightarrow> \<not> prefix s d \<Longrightarrow> \<not> prefix d s \<Longrightarrow> agree s fs0 fs'"
  unfolding agree_def frame_def
  by (metis append_Nil2 incomparable_append)
lemma bump_bump: "bump (bump st a b) c d = bump st (a + c) (b @ d)"
  by (simp add: bump_def)

lemma bump_zero: "bump st 0 [] = st"
  by (simp add: bump_def)

lemma simulatedI:
  assumes "\<And>fs' st'. run fs stats False = (fs', Inr st') \<Longrightarrow>
      frame destination fs fs'
      \<and> directoriesCreated stats \<le> directoriesCreated st'
      \<and> (\<exists>nf sk. filesCopied st' = filesCopied stats + nf
            \<and> skipped st' = skipped stats @ sk
            \<and> (\<forall>fs0 st0. agree source fs0 fs \<longrightarrow>
                  run fs0 st0 True = (fs0, Inr (bump st0 nf sk))))"
  shows "simulated run source destination fs stats"
  using assms unfolding simulated_def by blast

lemma simulatedE:
  assumes "simulated run source destination fs stats" and "run fs stats False = (fs', Inr st')"
  obtains nf sk where "frame destination fs fs'"
    and "directoriesCreated stats \<le> directoriesCreated st'"
    and "filesCopied st' = filesCopied stats + nf" and "skipped st' = skipped stats @ sk"
    and "\<And>fs0 st0. agree source fs0 fs \<Longrightarrow> run fs0 st0 True = (fs0, Inr (bump st0 nf sk))"
  using assms unfolding simulated_def by blast

lemma simulatedD:
  assumes "simulated run source destination fs stats" and "run fs stats False = (fs', Inr st')"
  shows "frame destination fs fs'
      \<and> directoriesCreated stats \<le> directoriesCreated st'
      \<and> (\<exists>nf sk. filesCopied st' = filesCopied stats + nf
            \<and> skipped st' = skipped stats @ sk
            \<and> (\<forall>fs0 st0. agree source fs0 fs \<longrightarrow>
                  run fs0 st0 True = (fs0, Inr (bump st0 nf sk))))"
  using assms unfolding simulated_def by blast

lemma simulated_seq:
  assumes one: "simulated run1 source destination fs stats"
    and two: "\<And>fs1 st1. simulated run2 source destination fs1 st1"
    and inc: "\<not> prefix source destination" "\<not> prefix destination source"
  shows "simulated
           (\<lambda>fs st dry. case run1 fs st dry of
                           (fs1, Inl e) \<Rightarrow> (fs1, Inl e)
                         | (fs1, Inr st1) \<Rightarrow> run2 fs1 st1 dry)
           source destination fs stats"
proof (rule simulatedI)
  fix fs' st'
  assume run: "(case run1 fs stats False of
                  (fs1, Inl e) \<Rightarrow> (fs1, Inl e)
                | (fs1, Inr st1) \<Rightarrow> run2 fs1 st1 False) = (fs', Inr st')"
  obtain fs1 r1 where r1: "run1 fs stats False = (fs1, r1)"
    by (cases "run1 fs stats False") auto
  with run obtain st1 where st1: "r1 = Inr st1" and r2: "run2 fs1 st1 False = (fs', Inr st')"
    by (cases r1) auto
  from one r1 st1 obtain nf1 sk1 where f1: "frame destination fs fs1"
    and d1: "directoriesCreated stats \<le> directoriesCreated st1"
    and n1: "filesCopied st1 = filesCopied stats + nf1" and s1: "skipped st1 = skipped stats @ sk1"
    and dry1: "\<And>fs0 st0. agree source fs0 fs \<Longrightarrow> run1 fs0 st0 True = (fs0, Inr (bump st0 nf1 sk1))"
    by (auto elim: simulatedE)
  from two [of fs1 st1] r2 obtain nf2 sk2 where f2: "frame destination fs1 fs'"
    and d2: "directoriesCreated st1 \<le> directoriesCreated st'"
    and n2: "filesCopied st' = filesCopied st1 + nf2" and s2: "skipped st' = skipped st1 @ sk2"
    and dry2: "\<And>fs0 st0. agree source fs0 fs1 \<Longrightarrow> run2 fs0 st0 True = (fs0, Inr (bump st0 nf2 sk2))"
    by (auto elim: simulatedE)
  have dry: "(case run1 fs0 st0 True of
                  (fs1, Inl e) \<Rightarrow> (fs1, Inl e)
                | (fs1, Inr st1) \<Rightarrow> run2 fs1 st1 True)
             = (fs0, Inr (bump st0 (nf1 + nf2) (sk1 @ sk2)))"
    if a: "agree source fs0 fs" for fs0 st0
  proof -
    from a f1 inc have "agree source fs0 fs1" by (rule agree_frame)
    then show ?thesis by (simp add: dry1 [OF a] dry2 bump_bump)
  qed
  from f1 f2 have "frame destination fs fs'" by (rule frame_trans)
  moreover from d1 d2 have "directoriesCreated stats \<le> directoriesCreated st'" by simp
  moreover from n1 n2 have "filesCopied st' = filesCopied stats + (nf1 + nf2)" by simp
  moreover from s1 s2 have "skipped st' = skipped stats @ (sk1 @ sk2)" by simp
  ultimately show "frame destination fs fs'
      \<and> directoriesCreated stats \<le> directoriesCreated st'
      \<and> (\<exists>nf sk. filesCopied st' = filesCopied stats + nf
            \<and> skipped st' = skipped stats @ sk
            \<and> (\<forall>fs0 st0. agree source fs0 fs \<longrightarrow>
                  (case run1 fs0 st0 True of
                     (fs1, Inl e) \<Rightarrow> (fs1, Inl e)
                   | (fs1, Inr st1) \<Rightarrow> run2 fs1 st1 True) = (fs0, Inr (bump st0 nf sk))))"
    using dry by blast
qed
lemma copyEntry_simulated:
  assumes IHP: "\<And>fs1 stats1.
      \<not> prefix (source @ [entName entry]) (destination @ [entName entry]) \<Longrightarrow>
      \<not> prefix (destination @ [entName entry]) (source @ [entName entry]) \<Longrightarrow>
      simulated (\<lambda>fs st dry. copyDirectoryRecursive fs (source @ [entName entry])
                   (destination @ [entName entry]) root pats st dry)
        (source @ [entName entry]) (destination @ [entName entry]) fs1 stats1"
    and inc: "\<not> prefix source destination" "\<not> prefix destination source"
  shows "simulated (\<lambda>fs st dry. copyEntry fs entry source destination root pats st dry)
           source destination fs stats"
proof (rule simulatedI)
  fix fs' st'
  let ?s = "source @ [entName entry]" and ?d = "destination @ [entName entry]"
  let ?rel = "relative root ?s"
  let ?goal = "\<lambda>fs' st'. frame destination fs fs'
      \<and> directoriesCreated stats \<le> directoriesCreated st'
      \<and> (\<exists>nf sk. filesCopied st' = filesCopied stats + nf
            \<and> skipped st' = skipped stats @ sk
            \<and> (\<forall>fs0 st0. agree source fs0 fs \<longrightarrow>
                  copyEntry fs0 entry source destination root pats st0 True
                    = (fs0, Inr (bump st0 nf sk))))"
  assume run: "copyEntry fs entry source destination root pats stats False = (fs', Inr st')"
  from inc have inc': "\<not> prefix ?s ?d" "\<not> prefix ?d ?s"
    using incomparable_append [of source destination] by blast+
  show "?goal fs' st'"
  proof (cases "shouldExclude ?rel pats")
    case (Inl e)
    with run show ?thesis by (simp add: copyEntry_error)
  next
    case (Inr b)
    show ?thesis
    proof (cases b)
      case True
      with Inr have ex: "shouldExclude ?rel pats = Inr True" by simp
      from run have "fs' = fs" and "st' = stats\<lparr>skipped := skipped stats @ [?rel]\<rparr>"
        by (simp_all add: copyEntry_excluded [OF ex])
      moreover have "copyEntry fs0 entry source destination root pats st0 True
                     = (fs0, Inr (bump st0 0 [?rel]))" for fs0 st0
        by (simp add: copyEntry_excluded [OF ex] bump_def)
      ultimately show ?thesis
        by (intro conjI exI [of _ 0] exI [of _ "[?rel]"]) (simp_all add: frame_refl)
    next
      case False
      with Inr have ne: "shouldExclude ?rel pats = Inr False" by simp
      show ?thesis
      proof (cases "isDirectory entry")
        case True
        from run obtain fsm where mk: "mkdir fs ?d = Inr fsm"
          and rec: "copyDirectoryRecursive fsm ?s ?d root pats
                      (stats\<lparr>directoriesCreated := directoriesCreated stats + 1\<rparr>) False
                    = (fs', Inr st')"
          by (auto simp: copyEntry_directory_real [OF ne True] split: sum.splits)
        note sim = IHP [OF inc', of fsm "stats\<lparr>directoriesCreated := directoriesCreated stats + 1\<rparr>"]
        from simulatedD [OF sim rec] obtain nf sk where f: "frame ?d fsm fs'"
          and d: "directoriesCreated (stats\<lparr>directoriesCreated := directoriesCreated stats + 1\<rparr>)
                  \<le> directoriesCreated st'"
          and n: "filesCopied st'
                  = filesCopied (stats\<lparr>directoriesCreated := directoriesCreated stats + 1\<rparr>) + nf"
          and s: "skipped st'
                  = skipped (stats\<lparr>directoriesCreated := directoriesCreated stats + 1\<rparr>) @ sk"
          and dry: "\<forall>fs0 st0. agree ?s fs0 fsm \<longrightarrow>
                  copyDirectoryRecursive fs0 ?s ?d root pats st0 True = (fs0, Inr (bump st0 nf sk))"
          by blast
        have fm: "frame ?d fs fsm" using mk by (rule mkdir_frame)
        have "frame ?d fs fs'" using fm f by (rule frame_trans)
        then have fr: "frame destination fs fs'" by (rule frame_child)
        have "copyEntry fs0 entry source destination root pats st0 True
                     = (fs0, Inr (bump st0 nf sk))" if a: "agree source fs0 fs" for fs0 st0
        proof -
          from a have "agree ?s fs0 fs" by (rule agree_child)
          then have "agree ?s fs0 fsm" using fm inc' by (rule agree_frame)
          then show ?thesis by (simp add: copyEntry_directory_dry [OF ne True] dry)
        qed
        with fr d n s show ?thesis
          by (intro conjI exI [of _ nf] exI [of _ sk]) simp_all
      next
        case notdir: False
        show ?thesis
        proof (cases "isFile entry")
          case True
          from run have cp: "copyFile fs ?s ?d = Inr fs'"
            and st': "filesCopied st' = filesCopied stats + 1" "skipped st' = skipped stats"
              "directoriesCreated st' = directoriesCreated stats"
            by (auto simp: copyEntry_file_real [OF ne notdir True] split: sum.splits)
          from cp have "frame ?d fs fs'" by (rule copyFile_frame)
          then have fr: "frame destination fs fs'" by (rule frame_child)
          have "copyEntry fs0 entry source destination root pats st0 True
                     = (fs0, Inr (bump st0 1 []))" for fs0 st0
            by (simp add: copyEntry_file_dry [OF ne notdir True] bump_def)
          with fr st' show ?thesis
            by (intro conjI exI [of _ 1] exI [of _ "[]"]) simp_all
        next
          case False
          from run have "fs' = fs" and "st' = stats"
            by (simp_all add: copyEntry_other [OF ne notdir False])
          moreover have "copyEntry fs0 entry source destination root pats st0 True
                     = (fs0, Inr (bump st0 0 []))" for fs0 st0
            by (simp add: copyEntry_other [OF ne notdir False] bump_zero)
          ultimately show ?thesis
            by (intro conjI exI [of _ 0] exI [of _ "[]"]) (simp_all add: frame_refl)
        qed
      qed
    qed
  qed
qed

lemma copy_simulated:
  shows "\<not> prefix source destination \<longrightarrow> \<not> prefix destination source \<longrightarrow>
         simulated (\<lambda>fs st dry. copyDirectoryRecursive fs source destination root pats st dry)
           source destination fs stats"
    and "\<not> prefix source destination \<longrightarrow> \<not> prefix destination source \<longrightarrow>
         simulated (\<lambda>fs st dry. copyEntries fs entries source destination root pats st dry)
           source destination fs stats"
proof -
  let ?P = "\<lambda>fs source destination stats.
      \<not> prefix source destination \<longrightarrow> \<not> prefix destination source \<longrightarrow>
      simulated (\<lambda>fs st dry. copyDirectoryRecursive fs source destination root pats st dry)
        source destination fs stats"
  let ?Q = "\<lambda>fs entries source destination stats.
      \<not> prefix source destination \<longrightarrow> \<not> prefix destination source \<longrightarrow>
      simulated (\<lambda>fs st dry. copyEntries fs entries source destination root pats st dry)
        source destination fs stats"
  have D: "?P fs source destination stats"
    if IH: "\<And>entries. readdir fs source = Inr entries \<Longrightarrow> ?Q fs entries source destination stats"
    for fs source destination stats
  proof (intro impI simulatedI)
    fix fs' st'
    assume inc: "\<not> prefix source destination" "\<not> prefix destination source"
      and run: "copyDirectoryRecursive fs source destination root pats stats False = (fs', Inr st')"
    from run obtain entries where rd: "readdir fs source = Inr entries"
      and run': "copyEntries fs entries source destination root pats stats False = (fs', Inr st')"
      by (auto simp: copyDirectoryRecursive.simps split: sum.splits)
    from IH [OF rd] inc run' obtain nf sk where "frame destination fs fs'"
      and "directoriesCreated stats \<le> directoriesCreated st'"
      and "filesCopied st' = filesCopied stats + nf" and "skipped st' = skipped stats @ sk"
      and dry: "\<And>fs0 st0. agree source fs0 fs \<Longrightarrow>
              copyEntries fs0 entries source destination root pats st0 True
                = (fs0, Inr (bump st0 nf sk))"
      by (auto elim: simulatedE)
    moreover have "copyDirectoryRecursive fs0 source destination root pats st0 True
                = (fs0, Inr (bump st0 nf sk))" if a: "agree source fs0 fs" for fs0 st0
      using agree_readdir [OF a] rd dry [OF a] by (simp add: copyDirectoryRecursive.simps)
    ultimately show "frame destination fs fs'
      \<and> directoriesCreated stats \<le> directoriesCreated st'
      \<and> (\<exists>nf sk. filesCopied st' = filesCopied stats + nf
            \<and> skipped st' = skipped stats @ sk
            \<and> (\<forall>fs0 st0. agree source fs0 fs \<longrightarrow>
                  copyDirectoryRecursive fs0 source destination root pats st0 True
                    = (fs0, Inr (bump st0 nf sk))))"
      by blast
  qed
  have N: "?Q fs [] source destination stats" for fs source destination stats
  proof (intro impI simulatedI)
    fix fs' st'
    assume "copyEntries fs [] source destination root pats stats False = (fs', Inr st')"
    then have "fs' = fs" and "st' = stats" by simp_all
    then show "frame destination fs fs'
      \<and> directoriesCreated stats \<le> directoriesCreated st'
      \<and> (\<exists>nf sk. filesCopied st' = filesCopied stats + nf
            \<and> skipped st' = skipped stats @ sk
            \<and> (\<forall>fs0 st0. agree source fs0 fs \<longrightarrow>
                  copyEntries fs0 [] source destination root pats st0 True
                    = (fs0, Inr (bump st0 nf sk))))"
      by (intro conjI exI [of _ 0] exI [of _ "[]"]) (simp_all add: frame_refl bump_zero)
  qed
  have C: "?Q fs (entry # rest) source destination stats"
    if IHP: "\<And>fs1 stats1. ?P fs1 (source @ [entName entry]) (destination @ [entName entry]) stats1"
      and IHQ: "\<And>fs1 stats1. ?Q fs1 rest source destination stats1"
    for fs entry rest source destination stats
  proof (intro impI)
    assume inc: "\<not> prefix source destination" "\<not> prefix destination source"
    have one: "simulated (\<lambda>fs st dry. copyEntry fs entry source destination root pats st dry)
                 source destination fs stats"
      using IHP inc by (intro copyEntry_simulated) blast+
    have two: "simulated (\<lambda>fs st dry. copyEntries fs rest source destination root pats st dry)
                 source destination fs1 st1" for fs1 st1
      using IHQ inc by blast
    have eq: "(\<lambda>fs st dry. copyEntries fs (entry # rest) source destination root pats st dry)
            = (\<lambda>fs st dry.
                 case copyEntry fs entry source destination root pats st dry of
                   (fs1, Inl e) \<Rightarrow> (fs1, Inl e)
                 | (fs1, Inr st1) \<Rightarrow> copyEntries fs1 rest source destination root pats st1 dry)"
      by (intro ext) (rule copyEntries_Cons_bind)
    show "simulated (\<lambda>fs st dry. copyEntries fs (entry # rest) source destination root pats st dry)
            source destination fs stats"
      unfolding eq using one two inc by (rule simulated_seq)
  qed
  show "?P fs source destination stats"
    by (rule copy_induct(1) [of ?Q ?P, OF D N C])
  show "?Q fs entries source destination stats"
    by (rule copy_induct(2) [of ?Q ?P, OF D N C])
qed
lemma agree_refl: "agree s fs fs"
  by (simp add: agree_def)

text \<open>
  C2, as the code has it. A copy with \<open>dryRun\<close> set leaves the file system as it is and
  reports no directory created and no byte copied. Whenever the same copy without
  \<open>dryRun\<close> succeeds, and neither of source and destination lies inside the other, the
  simulated copy succeeds as well and reports the same \<open>filesCopied\<close> and the same skipped
  paths; the real copy has counted at least the destination itself in
  \<open>directoriesCreated\<close>.
\<close>

theorem copyDirectory_simulation:
  "fst (copyDirectory fs source destination pats True) = fs
   \<and> (\<forall>st. snd (copyDirectory fs source destination pats True) = Inr st
         \<longrightarrow> directoriesCreated st = 0 \<and> bytesCopied st = 0)
   \<and> (\<not> prefix source destination \<and> \<not> prefix destination source
       \<and> copyDirectory fs source destination pats False = (fs', Inr st')
       \<longrightarrow> (\<exists>st. copyDirectory fs source destination pats True = (fs, Inr st)
                 \<and> filesCopied st = filesCopied st' \<and> skipped st = skipped st')
           \<and> 1 \<le> directoriesCreated st')"
proof (intro conjI impI)
  let ?zero = "\<lparr>filesCopied = 0, directoriesCreated = 0, bytesCopied = 0, skipped = []\<rparr>"
  have dry: "copyDirectory fs source destination pats True
             = copyDirectoryRecursive fs source destination source pats ?zero True"
    by (simp add: copyDirectory_def)
  show "fst (copyDirectory fs source destination pats True) = fs"
    unfolding dry using dry_run_leaves_fs(1) [of fs source destination source pats ?zero]
    by blast
  show "\<forall>st. snd (copyDirectory fs source destination pats True) = Inr st
         \<longrightarrow> directoriesCreated st = 0 \<and> bytesCopied st = 0"
    unfolding dry using dry_run_leaves_fs(1) [of fs source destination source pats ?zero]
    by simp
  assume h: "\<not> prefix source destination \<and> \<not> prefix destination source
       \<and> copyDirectory fs source destination pats False = (fs', Inr st')"
  then have inc: "\<not> prefix source destination" "\<not> prefix destination source"
    and run: "copyDirectory fs source destination pats False = (fs', Inr st')"
    by simp_all
  from run obtain fsm where mk: "mkdir fs destination = Inr fsm"
    and rec: "copyDirectoryRecursive fsm source destination source pats
                (?zero\<lparr>directoriesCreated := directoriesCreated ?zero + 1\<rparr>) False = (fs', Inr st')"
    by (auto simp: copyDirectory_def Let_def split: sum.splits)
  from copy_simulated(1) [of source destination source pats fsm] inc
  have sim: "simulated (\<lambda>fs st dry. copyDirectoryRecursive fs source destination source pats st dry)
               source destination fsm (?zero\<lparr>directoriesCreated := directoriesCreated ?zero + 1\<rparr>)"
    by blast
  from simulatedD [OF sim rec] obtain nf sk
    where d: "directoriesCreated (?zero\<lparr>directoriesCreated := directoriesCreated ?zero + 1\<rparr>)
              \<le> directoriesCreated st'"
      and n: "filesCopied st'
              = filesCopied (?zero\<lparr>directoriesCreated := directoriesCreated ?zero + 1\<rparr>) + nf"
      and s: "skipped st'
              = skipped (?zero\<lparr>directoriesCreated := directoriesCreated ?zero + 1\<rparr>) @ sk"
      and sim_dry: "\<forall>fs0 st0. agree source fs0 fsm \<longrightarrow>
              copyDirectoryRecursive fs0 source destination source pats st0 True
                = (fs0, Inr (bump st0 nf sk))"
    by blast
  have "frame destination fs fsm" using mk by (rule mkdir_frame)
  with agree_refl have "agree source fs fsm" using inc by (rule agree_frame)
  with sim_dry have "copyDirectory fs source destination pats True = (fs, Inr (bump ?zero nf sk))"
    by (simp add: dry)
  moreover from n have "filesCopied (bump ?zero nf sk) = filesCopied st'"
    by (simp add: bump_def)
  moreover from s have "skipped (bump ?zero nf sk) = skipped st'"
    by (simp add: bump_def)
  ultimately show "\<exists>st. copyDirectory fs source destination pats True = (fs, Inr st)
                 \<and> filesCopied st = filesCopied st' \<and> skipped st = skipped st'"
    by blast
  from d show "1 \<le> directoriesCreated st'" by simp
qed

section \<open>Worked examples for the copy\<close>

lemmas copy_eval =
  copyDirectory_def copyDirectoryRecursive.simps copyEntries.simps readdir_def resolve_def
  pathLength_def PATH_MAX_numeral fsExample_def Let_def shouldExclude_def matchesPattern_def
  regexPattern_def newRegExp_def parseItems.simps parseAtom_def metachar_def relative_def
  isDirectory_def isFile_def mkdir_def stat_def copyFile_def


theorem special_entry_ignored_witness:
  "readdir fsExample [''project''] =
     Inr ([Dirent ''a.txt'' KFile, Dirent ''b.txt'' KFile, Dirent ''node_modules'' KDirectory]
          @ Dirent ''link'' KOther # [])
   \<and> \<not> isDirectory (Dirent ''link'' KOther) \<and> \<not> isFile (Dirent ''link'' KOther)
   \<and> shouldExclude (relative [''project''] ([''project''] @ [entName (Dirent ''link'' KOther)]))
        [''node_modules''] = Inr False
   \<and> copyDirectoryRecursive fsExample [''project''] [''out''] [''project''] [''node_modules'']
        \<lparr>filesCopied = 0, directoriesCreated = 0, bytesCopied = 0, skipped = []\<rparr> True
      = (fsExample,
         Inr \<lparr>filesCopied = 2, directoriesCreated = 0, bytesCopied = 0,
              skipped = [''node_modules'']\<rparr>)"
proof -
  have h1: "readdir fsExample [''project''] =
     Inr ([Dirent ''a.txt'' KFile, Dirent ''b.txt'' KFile, Dirent ''node_modules'' KDirectory]
          @ Dirent ''link'' KOther # [])"
    by (simp add: readdir_def resolve_def pathLength_def PATH_MAX_numeral fsExample_def)
  have h2: "\<not> isDirectory (Dirent ''link'' KOther)" and h3: "\<not> isFile (Dirent ''link'' KOther)"
    by (simp_all add: isDirectory_def isFile_def)
  have h4: "shouldExclude
        (relative [''project''] ([''project''] @ [entName (Dirent ''link'' KOther)]))
        [''node_modules''] = Inr False"
    by (simp add: copy_eval)
  have "copyDirectoryRecursive fsExample [''project''] [''out''] [''project''] [''node_modules'']
        \<lparr>filesCopied = 0, directoriesCreated = 0, bytesCopied = 0, skipped = []\<rparr> True
      = copyEntries fsExample
          ([Dirent ''a.txt'' KFile, Dirent ''b.txt'' KFile, Dirent ''node_modules'' KDirectory] @ [])
          [''project''] [''out''] [''project''] [''node_modules'']
          \<lparr>filesCopied = 0, directoriesCreated = 0, bytesCopied = 0, skipped = []\<rparr> True"
    by (rule special_entry_ignored [OF h1 h2 h3 h4])
  also have "\<dots> = (fsExample,
         Inr \<lparr>filesCopied = 2, directoriesCreated = 0, bytesCopied = 0,
              skipped = [''node_modules'']\<rparr>)"
    by (simp add: copy_eval)
  finally show ?thesis using h1 h2 h3 h4 by simp
qed

text \<open>
  A symbolic link named \<open>link\<close> under the pattern \<open>link\<close>: it is recorded in \<open>skipped\<close>.
\<close>

theorem special_entry_excluded_is_recorded:
  "snd (copyDirectory fsExample [''project''] [''out''] [''link''] True)
     = Inr \<lparr>filesCopied = 3, directoriesCreated = 0, bytesCopied = 0, skipped = [''link'']\<rparr>"
  by (simp add: copy_eval)

text \<open>
  Restoring for a remote target: the command fails with backup-not-found, not with the
  not-implemented error; and \<open>restoreBackup\<close> itself, given the path that \<open>getBackupPath\<close>
  derives for a remote target, copies from that path of the local file system.
\<close>

theorem restore_remote_not_unsupported:
  "restoreCommand pfExample fsExample (Remote ''offsite'' (Absolute [''backups''])) ''app''
       ''2025-01-15T10-00-00Z'' (Absolute [''restored'']) False None
     = (fsExample, [''Listing remote backups is not yet implemented''],
        Inl (BackupNotFound ''2025-01-15T10-00-00Z'' ''app''))
   \<and> snd (restoreBackup fsExample
            (getBackupPath pfExample (Remote ''offsite'' (Absolute [''backups''])) ''app''
               ''2025-01-15T10-00-00Z'' None)
            [''restored''] False) = Inr ()"
  by (simp add: restoreCommand_def listBackups_def restoreBackup_def getBackupPath_def pathJoin_def
        directoryExists_def ensureDirectoryExists_def copy_eval)

theorem copyDirectory_simulation_witness:
  "\<not> prefix [''project''] [''out''] \<and> \<not> prefix [''out''] [''project'']
   \<and> copyDirectory fsExample [''project''] [''out''] [''node_modules''] False
      = (Dir [(''project'',
               Dir [(''a.txt'', File ''aa''), (''b.txt'', File ''bbb''),
                    (''node_modules'', Dir [(''x.json'', File ''{}'')]),
                    (''link'', Special)]),
              (''backups'',
               Dir [(''app'',
                     Dir [(''2025-01-15T10-00-00Z'', Dir [(''a.txt'', File ''aa'')]),
                          (''2025-01-15T12-00-00Z'', Dir []),
                          (''2025-01-15T11-00-00Z'', Dir []),
                          (''notes.txt'', File ''n'')])]),
              (''out'', Dir [(''a.txt'', File ''aa''), (''b.txt'', File ''bbb'')])],
         Inr \<lparr>filesCopied = 2, directoriesCreated = 1, bytesCopied = 5,
              skipped = [''node_modules'']\<rparr>)
   \<and> copyDirectory fsExample [''project''] [''out''] [''node_modules''] True
      = (fsExample,
         Inr \<lparr>filesCopied = 2, directoriesCreated = 0, bytesCopied = 0,
              skipped = [''node_modules'']\<rparr>)"
proof -
  let ?fs' = "Dir [(''project'',
               Dir [(''a.txt'', File ''aa''), (''b.txt'', File ''bbb''),
                    (''node_modules'', Dir [(''x.json'', File ''{}'')]),
                    (''link'', Special)]),
              (''backups'',
               Dir [(''app'',
                     Dir [(''2025-01-15T10-00-00Z'', Dir [(''a.txt'', File ''aa'')]),
                          (''2025-01-15T12-00-00Z'', Dir []),
                          (''2025-01-15T11-00-00Z'', Dir []),
                          (''notes.txt'', File ''n'')])]),
              (''out'', Dir [(''a.txt'', File ''aa''), (''b.txt'', File ''bbb'')])]"
  let ?st' = "\<lparr>filesCopied = 2, directoriesCreated = 1, bytesCopied = 5,
              skipped = [''node_modules'']\<rparr>"
  have h1: "\<not> prefix [''project''] [''out''] \<and> \<not> prefix [''out''] [''project'']"
    by simp
  have h2: "copyDirectory fsExample [''project''] [''out''] [''node_modules''] False
            = (?fs', Inr ?st')"
    by (simp add: copy_eval)
  note t = copyDirectory_simulation
    [of fsExample "[''project'']" "[''out'']" "[''node_modules'']" ?fs' ?st']
  from t h1 h2 obtain st where
    r: "copyDirectory fsExample [''project''] [''out''] [''node_modules''] True
          = (fsExample, Inr st)"
    and "filesCopied st = filesCopied ?st'" and "skipped st = skipped ?st'"
    by blast
  moreover from t r have "directoriesCreated st = 0 \<and> bytesCopied st = 0"
    by simp
  ultimately have "st = \<lparr>filesCopied = 2, directoriesCreated = 0, bytesCopied = 0,
              skipped = [''node_modules'']\<rparr>"
    by (cases st) simp
  with r h1 h2 show ?thesis by simp
qed

text \<open>
  The same copy, simulated and real: \<open>directoriesCreated\<close> is 0 in the one and 2 in the
  other (the destination and \<open>node_modules\<close>).
\<close>

theorem copyDirectory_directoriesCreated_differs:
  "snd (copyDirectory fsExample [''project''] [''out''] [] True)
     = Inr \<lparr>filesCopied = 3, directoriesCreated = 0, bytesCopied = 0, skipped = []\<rparr>
   \<and> snd (copyDirectory fsExample [''project''] [''out''] [] False)
     = Inr \<lparr>filesCopied = 3, directoriesCreated = 2, bytesCopied = 7, skipped = []\<rparr>"
  by (simp add: copy_eval)

end
